theory Spec2Isabelle
  imports Complex_Main "HOL-Library.Signed_Division"
begin

section \<open>Data model of itsalive.go\<close>

text \<open>
  \<^verbatim>\<open>type checkStatus int\<close> with the three constants declared by \<^verbatim>\<open>iota\<close>:
  \<^verbatim>\<open>checkStatusUnknown = 0\<close> (the zero value of the type, hence the fill of a fresh
  slice), \<^verbatim>\<open>checkStatusOk = 1\<close>, \<^verbatim>\<open>checkStatusAlarm = 2\<close>. The program never builds
  any other value of the type.
\<close>

datatype checkStatus = checkStatusUnknown | checkStatusOk | checkStatusAlarm

text \<open>
  Go's run-time panics that the modelled functions can raise: an index expression out of
  range, a slice expression \<^verbatim>\<open>history[1:]\<close> on an empty slice, \<^verbatim>\<open>make\<close> with a negative
  length, and a nil pointer dereference.
\<close>

datatype panic = IndexOutOfRange | SliceBoundsOutOfRange | MakeSliceLenOutOfRange
  | NilPointerDereference

section \<open>The status evaluator\<close>

text \<open>
  An index expression \<^verbatim>\<open>history[i]\<close>: Go panics unless \<open>0 \<le> i < len(history)\<close>.
  Go's \<^verbatim>\<open>int\<close> is modelled as \<open>int\<close>: in \<^verbatim>\<open>getNewStatus\<close> the only operation that
  could leave the 64-bit range is \<^verbatim>\<open>size - okPeriods\<close> for a negative period of
  huge magnitude; every statement below is about periods between 1 and the length of
  the slice, where all intermediate values lie between \<open>-1\<close> and the length.
\<close>

definition index :: "checkStatus list \<Rightarrow> int \<Rightarrow> panic + checkStatus" where
  "index history i =
     (if 0 \<le> i \<and> i < int (length history) then Inr (history ! nat i)
      else Inl IndexOutOfRange)"

text \<open>
  Both inner \<^verbatim>\<open>for\<close> statements of \<^verbatim>\<open>getNewStatus\<close> are the same loop for two constants:
  \<^verbatim>\<open>
  var ok = true
  for idx := size - 2; idx >= size-okPeriods; idx-- {
      if history[idx] != checkStatusOk { ok = false; break }
  }
  \<close>
  \<open>scanBack history want idx lo\<close> is the loop from the state \<open>idx\<close> on, with
  \<open>lo = size - okPeriods\<close>; its result is the final value of the flag.
\<close>

function scanBack :: "checkStatus list \<Rightarrow> checkStatus \<Rightarrow> int \<Rightarrow> int \<Rightarrow> panic + bool" where
  "scanBack history want idx lo =
     (if idx \<ge> lo then
        (case index history idx of
           Inl e \<Rightarrow> Inl e
         | Inr s \<Rightarrow> if s \<noteq> want then Inr False else scanBack history want (idx - 1) lo)
      else Inr True)"
  by pat_completeness auto
termination
  by (relation "measure (\<lambda>(history, want, idx, lo). nat (idx - lo + 1))") auto

declare scanBack.simps [simp del]

definition getNewStatus :: "checkStatus list \<Rightarrow> int \<Rightarrow> int \<Rightarrow> panic + checkStatus" where
  "getNewStatus history okPeriods alarmPeriods =
     (let size = int (length history) in
      case index history (size - 1) of
        Inl e \<Rightarrow> Inl e
      | Inr newest \<Rightarrow>
          (case (if newest = checkStatusOk
                 then scanBack history checkStatusOk (size - 2) (size - okPeriods)
                 else Inr False) of
             Inl e \<Rightarrow> Inl e
           | Inr True \<Rightarrow> Inr checkStatusOk
           | Inr False \<Rightarrow>
               (case (if newest = checkStatusAlarm
                      then scanBack history checkStatusAlarm (size - 2) (size - alarmPeriods)
                      else Inr False) of
                  Inl e \<Rightarrow> Inl e
                | Inr True \<Rightarrow> Inr checkStatusAlarm
                | Inr False \<Rightarrow> Inr checkStatusUnknown)))"

section \<open>Classifying one poll\<close>

text \<open>\<^verbatim>\<open>func max(x, y int) int\<close> of the source.\<close>

definition max_go :: "int \<Rightarrow> int \<Rightarrow> int" where
  "max_go x y = (if x > y then x else y)"

fun intInSlice :: "int \<Rightarrow> int list \<Rightarrow> bool" where
  "intInSlice a [] = False"
| "intInSlice a (b # slice) = (if a = b then True else intInSlice a slice)"

text \<open>
  Of \<^verbatim>\<open>*http.Response\<close> the program reads the status code only; a pointer that may be
  nil is an \<open>option\<close>. A Go \<^verbatim>\<open>error\<close> is nil (\<open>None\<close>) or carries its message.
\<close>

record response =
  StatusCode :: int

type_synonym error = "string option"

text \<open>
  \<^verbatim>\<open>time.Duration\<close>, wrapped by the struct \<^verbatim>\<open>duration\<close>: a count of nanoseconds.
\<close>

type_synonym duration = int

record urlConfig =
  Name :: string
  URL :: string
  OKStatuses :: "int list"
  CheckInterval :: duration
  OKPeriods :: int
  AlarmPeriods :: int
  HTTPTimeout :: duration

record aliveConfig =
  Items :: "urlConfig list"
  SlackToken :: string
  SlackChannel :: string
  BotName :: string

text \<open>
  \<^verbatim>\<open>checkResponse\<close> returns false on an error; otherwise it evaluates \<^verbatim>\<open>resp.Body\<close>
  for the deferred \<^verbatim>\<open>Close\<close>, which panics on a nil response, and looks the status
  code up. Closing the body has no effect on the values modelled here.
\<close>

definition checkResponse :: "response option \<Rightarrow> error \<Rightarrow> urlConfig \<Rightarrow> panic + bool" where
  "checkResponse resp err config =
     (if err \<noteq> None then Inr False
      else case resp of
             None \<Rightarrow> Inl NilPointerDereference
           | Some r \<Rightarrow> Inr (intInSlice (StatusCode r) (OKStatuses config)))"

section \<open>The watcher\<close>

text \<open>
  The struct \<^verbatim>\<open>statusChange\<close>; the field \<^verbatim>\<open>from\<close> and, with it, \<^verbatim>\<open>to\<close> carry a
  suffix because \<open>from\<close> is a keyword of the proof language. The time stamp is the
  value \<^verbatim>\<open>time.Now()\<close> returned, taken as an input of the iteration.
\<close>

record statusChange =
  name :: string
  url :: string
  time :: int
  from_status :: checkStatus
  to_status :: checkStatus

text \<open>
  The state of one \<^verbatim>\<open>watchURL\<close> task: its two local variables and the events it has sent
  on the channel so far, oldest first. A send appends; that it may block on a full
  channel is not modelled.
\<close>

record watcher =
  lastStatus :: checkStatus
  history :: "checkStatus list"
  events :: "statusChange list"

text \<open>
  What \<^verbatim>\<open>client.Get\<close> hands back, by the contract of \<^verbatim>\<open>net/http\<close>: a non-nil error, or
  a nil error with a non-nil response (with \<^verbatim>\<open>ignoreRedirect\<close> a 3xx answer is such a
  response). \<open>clientGet\<close> gives the pair \<^verbatim>\<open>resp, err\<close> of the source.
\<close>

datatype getResult = GetFailed string | GetResponse response

fun clientGet :: "getResult \<Rightarrow> response option \<times> error" where
  "clientGet (GetFailed msg) = (None, Some msg)"
| "clientGet (GetResponse r) = (Some r, None)"

text \<open>
  \<^verbatim>\<open>make([]checkStatus, n)\<close> panics on a negative length and otherwise fills the slice
  with the zero value of the type. \<^verbatim>\<open>append(history[1:], currentStatus)\<close> panics on an
  empty slice (the bound 1 exceeds the length 0) and otherwise yields the old entries
  but the first, followed by the new one; the old slice is not used again, so whether
  \<^verbatim>\<open>append\<close> reuses its array does not matter.
\<close>

definition make_history :: "int \<Rightarrow> panic + checkStatus list" where
  "make_history n =
     (if n < 0 then Inl MakeSliceLenOutOfRange
      else Inr (replicate (nat n) checkStatusUnknown))"

definition push_history :: "checkStatus list \<Rightarrow> checkStatus \<Rightarrow> panic + checkStatus list" where
  "push_history hist currentStatus =
     (if length hist < 1 then Inl SliceBoundsOutOfRange
      else Inr (drop 1 hist @ [currentStatus]))"

text \<open>
  One pass through the body of the \<^verbatim>\<open>for\<close> loop of \<^verbatim>\<open>watchURL\<close>, from the result of the
  request and the clock reading to the state after the pass. Logging and the final
  \<^verbatim>\<open>time.Sleep\<close> change nothing modelled here.
\<close>

definition watchIteration ::
    "urlConfig \<Rightarrow> getResult \<Rightarrow> int \<Rightarrow> watcher \<Rightarrow> panic + watcher" where
  "watchIteration config got now w =
     (case clientGet got of (resp, err) \<Rightarrow>
      case checkResponse resp err config of
        Inl p \<Rightarrow> Inl p
      | Inr result \<Rightarrow>
          (let currentStatus = (if result then checkStatusOk else checkStatusAlarm) in
           case push_history (history w) currentStatus of
             Inl p \<Rightarrow> Inl p
           | Inr hist \<Rightarrow>
               (case getNewStatus hist (OKPeriods config) (AlarmPeriods config) of
                  Inl p \<Rightarrow> Inl p
                | Inr newStatus \<Rightarrow>
                    if newStatus \<noteq> checkStatusUnknown \<and> newStatus \<noteq> lastStatus w
                    then Inr \<lparr>lastStatus = newStatus, history = hist,
                              events = events w @
                                [\<lparr>name = Name config, url = URL config, time = now,
                                  from_status = lastStatus w, to_status = newStatus\<rparr>]\<rparr>
                    else Inr (w\<lparr>history := hist\<rparr>))))"

text \<open>
  The loop of \<^verbatim>\<open>watchURL\<close> has no exit: the task runs until the process ends or a panic
  stops it. \<open>watchLoop\<close> is its behaviour on a finite prefix of what the network and the
  clock deliver, one pair per pass; \<open>watchURL\<close> starts it from the initial variables.
  The result is the state after the last pass of the prefix, or the panic that ended
  the task.
\<close>

fun watchLoop :: "urlConfig \<Rightarrow> (getResult \<times> int) list \<Rightarrow> watcher \<Rightarrow> panic + watcher" where
  "watchLoop config [] w = Inr w"
| "watchLoop config ((got, now) # polls) w =
     (case watchIteration config got now w of
        Inl p \<Rightarrow> Inl p
      | Inr w' \<Rightarrow> watchLoop config polls w')"

definition watchURL :: "urlConfig \<Rightarrow> (getResult \<times> int) list \<Rightarrow> panic + watcher" where
  "watchURL config polls =
     (case make_history (max_go (OKPeriods config) (AlarmPeriods config)) of
        Inl p \<Rightarrow> Inl p
      | Inr hist \<Rightarrow>
          watchLoop config polls
            \<lparr>lastStatus = checkStatusUnknown, history = hist, events = []\<rparr>)"

text \<open>
  The value the variable \<^verbatim>\<open>currentStatus\<close> takes in a pass that receives \<open>got\<close>.
\<close>

abbreviation currentStatus_of :: "urlConfig \<Rightarrow> getResult \<Rightarrow> checkStatus" where
  "currentStatus_of config got \<equiv>
     (if checkResponse (fst (clientGet got)) (snd (clientGet got)) config = Inr True
      then checkStatusOk else checkStatusAlarm)"

section \<open>Validating the configuration\<close>

text \<open>
  \<^verbatim>\<open>utf8.RuneCountInString\<close> of the standard library walks the bytes of the string and
  counts one rune per step. A step consumes the 2 to 4 bytes of a well-formed encoding,
  and a single byte otherwise (ASCII, an invalid lead byte, an encoding cut short, a
  wrong continuation byte). \<open>leadSize\<close> is the length a lead byte announces (0 for an
  invalid one); the second byte has a range of its own after the lead bytes E0, ED, F0
  and F4.
\<close>

definition leadSize :: "nat \<Rightarrow> nat" where
  "leadSize c =
     (if c < 0x80 then 1 else if c < 0xC2 then 0 else if c < 0xE0 then 2
      else if c < 0xF0 then 3 else if c < 0xF5 then 4 else 0)"

definition acceptLo :: "nat \<Rightarrow> nat" where
  "acceptLo c = (if c = 0xE0 then 0xA0 else if c = 0xF0 then 0x90 else 0x80)"

definition acceptHi :: "nat \<Rightarrow> nat" where
  "acceptHi c = (if c = 0xED then 0x9F else if c = 0xF4 then 0x8F else 0xBF)"

fun runeWidth :: "nat list \<Rightarrow> nat" where
  "runeWidth [] = 0"
| "runeWidth (c # rest) =
     (let size = leadSize c in
      if size \<le> 1 then 1
      else if length (c # rest) < size then 1
      else if rest ! 0 < acceptLo c \<or> acceptHi c < rest ! 0 then 1
      else if size = 2 then 2
      else if rest ! 1 < 0x80 \<or> 0xBF < rest ! 1 then 1
      else if size = 3 then 3
      else if rest ! 2 < 0x80 \<or> 0xBF < rest ! 2 then 1
      else 4)"

function RuneCountInString :: "string \<Rightarrow> int" where
  "RuneCountInString s =
     (if s = [] then 0
      else 1 + RuneCountInString (drop (runeWidth (map of_char s)) s))"
  by pat_completeness auto
termination
proof (relation "measure length")
  show "wf (measure length)" by simp
next
  fix s :: string
  assume "s \<noteq> []"
  then have "0 < runeWidth (map of_char s)"
    by (cases s) (simp_all add: Let_def)
  with \<open>s \<noteq> []\<close> show "(drop (runeWidth (map of_char s)) s, s) \<in> measure length"
    by simp
qed

declare RuneCountInString.simps [simp del]

text \<open>
  \<^verbatim>\<open>Duration.Seconds\<close> of the standard library: the whole seconds plus the remaining
  nanoseconds over \<^verbatim>\<open>1e9\<close>, with Go's truncating division and remainder. The source
  only compares the result with 0; the library computes in \<^verbatim>\<open>float64\<close>, where both
  summands have the sign of the duration and a non-zero one has magnitude at least
  \<^verbatim>\<open>1e-9\<close>, so the rounded sum is 0 exactly when the sum below is.
\<close>

definition Seconds :: "duration \<Rightarrow> real" where
  "Seconds d = of_int (d sdiv 1000000000) + of_int (d smod 1000000000) / 1000000000"

text \<open>The verb \<^verbatim>\<open>%d\<close> of \<^verbatim>\<open>fmt.Errorf\<close> on an index, which is never negative.\<close>

fun fmt_d :: "nat \<Rightarrow> string" where
  "fmt_d n =
     (if n < 10 then [''0123456789'' ! n]
      else fmt_d (n div 10) @ [''0123456789'' ! (n mod 10)])"

declare fmt_d.simps [simp del]

definition validateURLConfig :: "urlConfig \<Rightarrow> error" where
  "validateURLConfig config =
     (if RuneCountInString (URL config) = 0 then Some ''empty URL''
      else if length (OKStatuses config) = 0 then Some ''empty OKStatuses''
      else if Seconds (CheckInterval config) = 0 then Some ''CheckInterval == 0s''
      else if Seconds (HTTPTimeout config) = 0 then Some ''HTTPTimeout == 0s''
      else if AlarmPeriods config = 0 then Some ''AlarmPeriods == 0''
      else if OKPeriods config = 0 then Some ''OKPeriods == 0''
      else None)"

text \<open>
  The \<^verbatim>\<open>range\<close> loop of \<^verbatim>\<open>validateConfig\<close> over the items, from the index \<open>idx\<close> on.
\<close>

fun validateItems :: "nat \<Rightarrow> urlConfig list \<Rightarrow> error" where
  "validateItems idx [] = None"
| "validateItems idx (conf # rest) =
     (case validateURLConfig conf of
        Some msg \<Rightarrow> Some (''invalid item '' @ fmt_d idx @ '': '' @ msg)
      | None \<Rightarrow> validateItems (Suc idx) rest)"

definition validateConfig :: "aliveConfig \<Rightarrow> error" where
  "validateConfig config =
     (if RuneCountInString (SlackToken config) = 0 then Some ''empty SlackToken''
      else if RuneCountInString (SlackChannel config) = 0 then Some ''empty SlackChannel''
      else if RuneCountInString (BotName config) = 0 then Some ''empty BotName''
      else if length (Items config) = 0 then Some ''no items''
      else validateItems 0 (Items config))"

section \<open>What the evaluator computes\<close>

text \<open>
  While the loop stays inside the slice, its flag says whether every entry between
  the bound \<open>lo\<close> and the start index is the wanted status.
\<close>

lemma scanBack_in_range:
  "- 1 \<le> idx \<Longrightarrow> idx < int (length hist) \<Longrightarrow> 0 \<le> lo \<Longrightarrow>
   scanBack hist want idx lo = Inr (\<forall>i. lo \<le> i \<and> i \<le> idx \<longrightarrow> hist ! nat i = want)"
proof (induction hist want idx lo rule: scanBack.induct)
  case (1 hist want idx lo)
  show ?case
  proof (cases "idx \<ge> lo")
    case False
    then have "(\<forall>i. lo \<le> i \<and> i \<le> idx \<longrightarrow> hist ! nat i = want) = True"
      by (intro iffI TrueI allI impI) linarith
    with False show ?thesis by (subst scanBack.simps) (simp only: if_False)
  next
    case True
    with "1.prems" have inb: "0 \<le> idx" "idx < int (length hist)" by auto
    then have ix: "index hist idx = Inr (hist ! nat idx)" by (simp add: index_def)
    show ?thesis
    proof (cases "hist ! nat idx = want")
      case False
      with True ix show ?thesis
        by (subst scanBack.simps) auto
    next
      case eq: True
      have ih: "scanBack hist want (idx - 1) lo =
        Inr (\<forall>i. lo \<le> i \<and> i \<le> idx - 1 \<longrightarrow> hist ! nat i = want)"
        using "1.IH" [OF True ix] eq inb "1.prems" by simp
      have "(\<forall>i. lo \<le> i \<and> i \<le> idx \<longrightarrow> hist ! nat i = want) =
            (\<forall>i. lo \<le> i \<and> i \<le> idx - 1 \<longrightarrow> hist ! nat i = want)"
      proof -
        have "\<And>i. i \<le> idx \<longleftrightarrow> i \<le> idx - 1 \<or> i = idx" by auto
        with eq show ?thesis by auto
      qed
      with True ix eq ih show ?thesis
        by (subst scanBack.simps) simp
    qed
  qed
qed

text \<open>The entries of a suffix are the entries at the indices from its start on.\<close>

lemma all_drop_conv_nth:
  "(\<forall>x \<in> set (drop k xs). P x) = (\<forall>j. k \<le> j \<and> j < length xs \<longrightarrow> P (xs ! j))"
proof
  assume l: "\<forall>x \<in> set (drop k xs). P x"
  show "\<forall>j. k \<le> j \<and> j < length xs \<longrightarrow> P (xs ! j)"
  proof (intro allI impI)
    fix j assume j: "k \<le> j \<and> j < length xs"
    then have "j - k < length (drop k xs)" by auto
    then have "drop k xs ! (j - k) \<in> set (drop k xs)" by (rule nth_mem)
    moreover from j have "drop k xs ! (j - k) = xs ! j" by simp
    ultimately show "P (xs ! j)" using l by auto
  qed
next
  assume r: "\<forall>j. k \<le> j \<and> j < length xs \<longrightarrow> P (xs ! j)"
  show "\<forall>x \<in> set (drop k xs). P x"
  proof
    fix x assume "x \<in> set (drop k xs)"
    then obtain i where i: "i < length (drop k xs)" "drop k xs ! i = x"
      by (auto simp: in_set_conv_nth)
    then have "xs ! (k + i) = x" "k + i < length xs" by auto
    with r show "P x" by (metis le_add1)
  qed
qed

lemma all_last_iff:
  assumes "1 \<le> n" "n \<le> int (length hist)"
  shows "(\<forall>s \<in> set (drop (length hist - nat n) hist). s = want) \<longleftrightarrow>
         (hist ! nat (int (length hist) - 1) = want \<and>
          (\<forall>i. int (length hist) - n \<le> i \<and> i \<le> int (length hist) - 2 \<longrightarrow> hist ! nat i = want))"
    (is "?L \<longleftrightarrow> ?R")
proof -
  have L: "?L \<longleftrightarrow> (\<forall>j. length hist - nat n \<le> j \<and> j < length hist \<longrightarrow> hist ! j = want)"
    by (rule all_drop_conv_nth)
  show ?thesis unfolding L
  proof
    assume a: "\<forall>j. length hist - nat n \<le> j \<and> j < length hist \<longrightarrow> hist ! j = want"
    show ?R
    proof (intro conjI allI impI)
      from assms have "length hist - nat n \<le> nat (int (length hist) - 1)"
        "nat (int (length hist) - 1) < length hist" by auto
      with a show "hist ! nat (int (length hist) - 1) = want" by blast
    next
      fix i assume "int (length hist) - n \<le> i \<and> i \<le> int (length hist) - 2"
      with assms have "length hist - nat n \<le> nat i" "nat i < length hist" by auto
      with a show "hist ! nat i = want" by blast
    qed
  next
    assume r: ?R
    show "\<forall>j. length hist - nat n \<le> j \<and> j < length hist \<longrightarrow> hist ! j = want"
    proof (intro allI impI)
      fix j assume j: "length hist - nat n \<le> j \<and> j < length hist"
      show "hist ! j = want"
      proof (cases "int j = int (length hist) - 1")
        case True
        then have "nat (int (length hist) - 1) = j" by simp
        with r show ?thesis by simp
      next
        case False
        with j assms have "int (length hist) - n \<le> int j \<and> int j \<le> int (length hist) - 2"
          by auto
        with r have "hist ! nat (int j) = want" by blast
        then show ?thesis by simp
      qed
    qed
  qed
qed

text \<open>
  For periods between 1 and the length of the slice the evaluator returns, without a
  panic, \<open>Ok\<close> when the last \<open>okPeriods\<close> entries are all \<open>Ok\<close>, else \<open>Alarm\<close> when the
  last \<open>alarmPeriods\<close> entries are all \<open>Alarm\<close>, else \<open>Unknown\<close>.
\<close>

lemma getNewStatus_spec:
  assumes "1 \<le> okPeriods" "okPeriods \<le> int (length hist)"
    and "1 \<le> alarmPeriods" "alarmPeriods \<le> int (length hist)"
  shows "getNewStatus hist okPeriods alarmPeriods =
    Inr (if \<forall>s \<in> set (drop (length hist - nat okPeriods) hist). s = checkStatusOk
         then checkStatusOk
         else if \<forall>s \<in> set (drop (length hist - nat alarmPeriods) hist). s = checkStatusAlarm
         then checkStatusAlarm else checkStatusUnknown)"
proof -
  let ?size = "int (length hist)"
  from assms have pos: "1 \<le> ?size" by linarith
  then have ix: "index hist (?size - 1) = Inr (hist ! nat (?size - 1))"
    by (auto simp add: index_def)
  have sb: "scanBack hist want (?size - 2) (?size - n) =
      Inr (\<forall>i. ?size - n \<le> i \<and> i \<le> ?size - 2 \<longrightarrow> hist ! nat i = want)"
    if "1 \<le> n" "n \<le> ?size" for n want
    using that pos by (intro scanBack_in_range) auto
  define A where "A = (\<forall>i. ?size - okPeriods \<le> i \<and> i \<le> ?size - 2 \<longrightarrow> hist ! nat i = checkStatusOk)"
  define B where "B = (\<forall>i. ?size - alarmPeriods \<le> i \<and> i \<le> ?size - 2 \<longrightarrow> hist ! nat i = checkStatusAlarm)"
  define newest where "newest = hist ! nat (?size - 1)"
  have sbA: "scanBack hist checkStatusOk (?size - 2) (?size - okPeriods) = Inr A"
    unfolding A_def by (rule sb) (rule assms)+
  have sbB: "scanBack hist checkStatusAlarm (?size - 2) (?size - alarmPeriods) = Inr B"
    unfolding B_def by (rule sb) (rule assms)+
  have lA: "(\<forall>s \<in> set (drop (length hist - nat okPeriods) hist). s = checkStatusOk)
      \<longleftrightarrow> newest = checkStatusOk \<and> A"
    unfolding A_def newest_def by (rule all_last_iff) (rule assms)+
  have lB: "(\<forall>s \<in> set (drop (length hist - nat alarmPeriods) hist). s = checkStatusAlarm)
      \<longleftrightarrow> newest = checkStatusAlarm \<and> B"
    unfolding B_def newest_def by (rule all_last_iff) (rule assms)+
  have "getNewStatus hist okPeriods alarmPeriods =
     (case (if newest = checkStatusOk then Inr A else Inr False) of
             Inl e \<Rightarrow> Inl e
           | Inr True \<Rightarrow> Inr checkStatusOk
           | Inr False \<Rightarrow>
               (case (if newest = checkStatusAlarm then Inr B else Inr False) of
                  Inl e \<Rightarrow> Inl e
                | Inr True \<Rightarrow> Inr checkStatusAlarm
                | Inr False \<Rightarrow> Inr checkStatusUnknown))"
    unfolding getNewStatus_def Let_def ix sbA sbB newest_def by simp
  also have "\<dots> = Inr (if newest = checkStatusOk \<and> A then checkStatusOk
         else if newest = checkStatusAlarm \<and> B then checkStatusAlarm else checkStatusUnknown)"
    by (cases newest; cases A; cases B; simp)
  finally show ?thesis unfolding lA lB .
qed

section \<open>Properties of the evaluator\<close>

text \<open>
  C1. For a history buffer of length \<open>max(N_ok, N_alarm)\<close> with both periods at least 1,
  \<^verbatim>\<open>getNewStatus\<close> returns \<open>Ok\<close> if the last \<open>N_ok\<close> entries are all \<open>Ok\<close>, otherwise
  \<open>Alarm\<close> if the last \<open>N_alarm\<close> entries are all \<open>Alarm\<close>, otherwise \<open>Unknown\<close>. In
  particular the last \<open>N_ok\<close> entries being all \<open>Ok\<close> gives \<open>Ok\<close> whatever the older
  entries are.
\<close>

theorem getNewStatus_unanimous:
  assumes "1 \<le> okPeriods" and "1 \<le> alarmPeriods"
    and "int (length hist) = max_go okPeriods alarmPeriods"
  shows "getNewStatus hist okPeriods alarmPeriods =
      Inr (if \<forall>s \<in> set (drop (length hist - nat okPeriods) hist). s = checkStatusOk
           then checkStatusOk
           else if \<forall>s \<in> set (drop (length hist - nat alarmPeriods) hist). s = checkStatusAlarm
           then checkStatusAlarm else checkStatusUnknown)
    \<and> ((\<forall>s \<in> set (drop (length hist - nat okPeriods) hist). s = checkStatusOk) \<longrightarrow>
        getNewStatus hist okPeriods alarmPeriods = Inr checkStatusOk)"
proof -
  from assms(3) have "okPeriods \<le> int (length hist)" "alarmPeriods \<le> int (length hist)"
    by (simp_all add: max_go_def split: if_splits)
  with assms(1,2) have "getNewStatus hist okPeriods alarmPeriods =
      Inr (if \<forall>s \<in> set (drop (length hist - nat okPeriods) hist). s = checkStatusOk
           then checkStatusOk
           else if \<forall>s \<in> set (drop (length hist - nat alarmPeriods) hist). s = checkStatusAlarm
           then checkStatusAlarm else checkStatusUnknown)"
    by (intro getNewStatus_spec)
  then show ?thesis by simp
qed

text \<open>
  A window of three whose oldest entry is \<open>Alarm\<close> and whose last two are \<open>Ok\<close>, with
  \<open>N_ok = 2\<close> and \<open>N_alarm = 3\<close>: the older entry does not matter.
\<close>

theorem getNewStatus_unanimous_witness:
  "(1::int) \<le> 2 \<and> (1::int) \<le> 3
   \<and> int (length [checkStatusAlarm, checkStatusOk, checkStatusOk]) = max_go 2 3
   \<and> drop (length [checkStatusAlarm, checkStatusOk, checkStatusOk] - nat 2)
          [checkStatusAlarm, checkStatusOk, checkStatusOk] = [checkStatusOk, checkStatusOk]
   \<and> getNewStatus [checkStatusAlarm, checkStatusOk, checkStatusOk] 2 3 = Inr checkStatusOk"
  using getNewStatus_unanimous [of 2 3 "[checkStatusAlarm, checkStatusOk, checkStatusOk]"]
  by (simp add: max_go_def)

text \<open>
  With \<open>N_ok = 3\<close> and \<open>N_alarm = 1\<close> the window \<open>[Ok, Ok, Alarm]\<close> has an entry that
  differs from the others within its last \<open>N_ok\<close> positions, and the evaluator confirms
  \<open>Alarm\<close>: a differing entry in one of the two windows does not force \<open>Unknown\<close>.
\<close>

theorem differing_entry_counterexample:
  "(1::int) \<le> 3 \<and> (1::int) \<le> 1
   \<and> int (length [checkStatusOk, checkStatusOk, checkStatusAlarm]) = max_go 3 1
   \<and> checkStatusOk \<in> set (drop (length [checkStatusOk, checkStatusOk, checkStatusAlarm] - nat 3)
         [checkStatusOk, checkStatusOk, checkStatusAlarm])
   \<and> checkStatusAlarm \<in> set (drop (length [checkStatusOk, checkStatusOk, checkStatusAlarm] - nat 3)
         [checkStatusOk, checkStatusOk, checkStatusAlarm])
   \<and> checkStatusOk \<noteq> checkStatusAlarm
   \<and> getNewStatus [checkStatusOk, checkStatusOk, checkStatusAlarm] 3 1 = Inr checkStatusAlarm
   \<and> getNewStatus [checkStatusOk, checkStatusOk, checkStatusAlarm] 3 1 \<noteq> Inr checkStatusUnknown"
  by (simp add: max_go_def getNewStatus_def index_def scanBack.simps)

text \<open>
  C2, amended. For a history buffer of length \<open>max(N_ok, N_alarm)\<close>: with an entry that
  differs from another within the last \<open>N_ok\<close> positions the result is \<open>Unknown\<close>, unless
  the last \<open>N_alarm\<close> entries are all \<open>Alarm\<close>, when it is \<open>Alarm\<close>; with a differing entry
  within the last \<open>N_alarm\<close> positions the result is \<open>Unknown\<close>, unless the last \<open>N_ok\<close>
  entries are all \<open>Ok\<close>, when it is \<open>Ok\<close>.
\<close>

theorem differing_entry_amended:
  assumes "1 \<le> okPeriods" and "1 \<le> alarmPeriods"
    and "int (length hist) = max_go okPeriods alarmPeriods"
  shows "((\<exists>x \<in> set (drop (length hist - nat okPeriods) hist).
           \<exists>y \<in> set (drop (length hist - nat okPeriods) hist). x \<noteq> y) \<longrightarrow>
          getNewStatus hist okPeriods alarmPeriods =
            Inr (if \<forall>s \<in> set (drop (length hist - nat alarmPeriods) hist). s = checkStatusAlarm
                 then checkStatusAlarm else checkStatusUnknown))
       \<and> ((\<exists>x \<in> set (drop (length hist - nat alarmPeriods) hist).
           \<exists>y \<in> set (drop (length hist - nat alarmPeriods) hist). x \<noteq> y) \<longrightarrow>
          getNewStatus hist okPeriods alarmPeriods =
            Inr (if \<forall>s \<in> set (drop (length hist - nat okPeriods) hist). s = checkStatusOk
                 then checkStatusOk else checkStatusUnknown))"
proof -
  from assms(3) have le: "okPeriods \<le> int (length hist)" "alarmPeriods \<le> int (length hist)"
    by (simp_all add: max_go_def split: if_splits)
  note spec = getNewStatus_spec [OF assms(1) le(1) assms(2) le(2)]
  show ?thesis
  proof (intro conjI impI)
    assume "\<exists>x \<in> set (drop (length hist - nat okPeriods) hist).
          \<exists>y \<in> set (drop (length hist - nat okPeriods) hist). x \<noteq> y"
    then have "\<not> (\<forall>s \<in> set (drop (length hist - nat okPeriods) hist). s = checkStatusOk)"
      by metis
    then show "getNewStatus hist okPeriods alarmPeriods =
            Inr (if \<forall>s \<in> set (drop (length hist - nat alarmPeriods) hist). s = checkStatusAlarm
                 then checkStatusAlarm else checkStatusUnknown)"
      unfolding spec by (simp only: if_False)
  next
    assume "\<exists>x \<in> set (drop (length hist - nat alarmPeriods) hist).
          \<exists>y \<in> set (drop (length hist - nat alarmPeriods) hist). x \<noteq> y"
    then have "\<not> (\<forall>s \<in> set (drop (length hist - nat alarmPeriods) hist). s = checkStatusAlarm)"
      by metis
    then show "getNewStatus hist okPeriods alarmPeriods =
            Inr (if \<forall>s \<in> set (drop (length hist - nat okPeriods) hist). s = checkStatusOk
                 then checkStatusOk else checkStatusUnknown)"
      unfolding spec by (simp only: if_False)
  qed
qed

text \<open>
  Windows of three: \<open>[Ok, Alarm, Ok]\<close> and \<open>[Alarm, Ok, Ok]\<close> with \<open>N_ok = 3\<close>, \<open>N_alarm = 2\<close>
  give \<open>Unknown\<close>; \<open>[Ok, Ok, Alarm]\<close> with \<open>N_alarm = 1\<close> gives \<open>Alarm\<close> and
  \<open>[Alarm, Alarm, Ok]\<close> with \<open>N_ok = 1\<close> gives \<open>Ok\<close>, the other window being unanimous.
\<close>

theorem differing_entry_amended_witness:
  "getNewStatus [checkStatusOk, checkStatusAlarm, checkStatusOk] 3 2 = Inr checkStatusUnknown
   \<and> getNewStatus [checkStatusAlarm, checkStatusOk, checkStatusOk] 3 2 = Inr checkStatusUnknown
   \<and> getNewStatus [checkStatusOk, checkStatusOk, checkStatusAlarm] 3 1 = Inr checkStatusAlarm
   \<and> getNewStatus [checkStatusAlarm, checkStatusAlarm, checkStatusOk] 1 3 = Inr checkStatusOk"
proof -
  let ?a = "[checkStatusOk, checkStatusAlarm, checkStatusOk]"
  let ?b = "[checkStatusAlarm, checkStatusOk, checkStatusOk]"
  let ?c = "[checkStatusOk, checkStatusOk, checkStatusAlarm]"
  let ?d = "[checkStatusAlarm, checkStatusAlarm, checkStatusOk]"
  have p32: "(1::int) \<le> 3" "(1::int) \<le> 2" by simp_all
  have p31: "(1::int) \<le> 3" "(1::int) \<le> 1" by simp_all
  have p13: "(1::int) \<le> 1" "(1::int) \<le> 3" by simp_all
  have la: "int (length ?a) = max_go 3 2" and lb: "int (length ?b) = max_go 3 2"
    and lc: "int (length ?c) = max_go 3 1" and ld: "int (length ?d) = max_go 1 3"
    by (simp_all add: max_go_def)
  have da: "\<exists>x \<in> set (drop (length ?a - nat 2) ?a). \<exists>y \<in> set (drop (length ?a - nat 2) ?a). x \<noteq> y"
    by auto
  have db: "\<exists>x \<in> set (drop (length ?b - nat 3) ?b). \<exists>y \<in> set (drop (length ?b - nat 3) ?b). x \<noteq> y"
    by auto
  have dc: "\<exists>x \<in> set (drop (length ?c - nat 3) ?c). \<exists>y \<in> set (drop (length ?c - nat 3) ?c). x \<noteq> y"
    by auto
  have dd: "\<exists>x \<in> set (drop (length ?d - nat 3) ?d). \<exists>y \<in> set (drop (length ?d - nat 3) ?d). x \<noteq> y"
    by auto
  from differing_entry_amended [OF p32 la] da
  have a: "getNewStatus ?a 3 2 = Inr checkStatusUnknown" by simp
  from differing_entry_amended [OF p32 lb] db
  have b: "getNewStatus ?b 3 2 = Inr checkStatusUnknown" by simp
  from differing_entry_amended [OF p31 lc] dc
  have c: "getNewStatus ?c 3 1 = Inr checkStatusAlarm" by simp
  from differing_entry_amended [OF p13 ld] dd
  have d: "getNewStatus ?d 1 3 = Inr checkStatusOk" by simp
  from a b c d show ?thesis by (intro conjI)
qed

text \<open>
  After the first poll of a target with \<open>N_ok = 1\<close> and \<open>N_alarm = 2\<close> the buffer
  \<open>[Unknown, Ok]\<close> still holds an entry of the initial fill, and the evaluator confirms
  \<open>Ok\<close>: it looks at the last \<open>N_ok\<close> entries only.
\<close>

theorem initial_fill_counterexample:
  "(1::int) \<le> 1 \<and> (1::int) \<le> 2
   \<and> int (length [checkStatusUnknown, checkStatusOk]) = max_go 1 2
   \<and> checkStatusUnknown \<in> set [checkStatusUnknown, checkStatusOk]
   \<and> getNewStatus [checkStatusUnknown, checkStatusOk] 1 2 = Inr checkStatusOk
   \<and> getNewStatus [checkStatusUnknown, checkStatusOk] 1 2 \<noteq> Inr checkStatusUnknown"
  by (simp add: max_go_def getNewStatus_def index_def scanBack.simps)

text \<open>
  C3, amended. For a history buffer of length \<open>max(N_ok, N_alarm)\<close> that holds an
  \<open>Unknown\<close> entry the result is \<open>Unknown\<close>, with two exceptions: it is \<open>Ok\<close> when
  \<open>N_ok < N_alarm\<close> and the last \<open>N_ok\<close> entries are all \<open>Ok\<close>, and \<open>Alarm\<close> when
  \<open>N_alarm < N_ok\<close> and the last \<open>N_alarm\<close> entries are all \<open>Alarm\<close>. An \<open>Unknown\<close> entry
  within the last \<open>N_ok\<close> positions leaves \<open>Unknown\<close> or a unanimous \<open>Alarm\<close>, and one within
  the last \<open>N_alarm\<close> positions leaves \<open>Unknown\<close> or a unanimous \<open>Ok\<close>.
\<close>

theorem initial_fill_amended:
  assumes "1 \<le> okPeriods" and "1 \<le> alarmPeriods"
    and "int (length hist) = max_go okPeriods alarmPeriods"
  shows "(checkStatusUnknown \<in> set hist \<longrightarrow>
          getNewStatus hist okPeriods alarmPeriods =
            Inr (if okPeriods < alarmPeriods \<and>
                    (\<forall>s \<in> set (drop (length hist - nat okPeriods) hist). s = checkStatusOk)
                 then checkStatusOk
                 else if alarmPeriods < okPeriods \<and>
                    (\<forall>s \<in> set (drop (length hist - nat alarmPeriods) hist). s = checkStatusAlarm)
                 then checkStatusAlarm else checkStatusUnknown))
       \<and> (checkStatusUnknown \<in> set (drop (length hist - nat okPeriods) hist) \<longrightarrow>
          getNewStatus hist okPeriods alarmPeriods =
            Inr (if \<forall>s \<in> set (drop (length hist - nat alarmPeriods) hist). s = checkStatusAlarm
                 then checkStatusAlarm else checkStatusUnknown))
       \<and> (checkStatusUnknown \<in> set (drop (length hist - nat alarmPeriods) hist) \<longrightarrow>
          getNewStatus hist okPeriods alarmPeriods =
            Inr (if \<forall>s \<in> set (drop (length hist - nat okPeriods) hist). s = checkStatusOk
                 then checkStatusOk else checkStatusUnknown))"
proof -
  from assms(3) have le: "okPeriods \<le> int (length hist)" "alarmPeriods \<le> int (length hist)"
    by (simp_all add: max_go_def split: if_splits)
  note spec = getNewStatus_spec [OF assms(1) le(1) assms(2) le(2)]
  let ?okw = "drop (length hist - nat okPeriods) hist"
  let ?alw = "drop (length hist - nat alarmPeriods) hist"
  have nok: "\<not> (\<forall>s \<in> set ?okw. s = checkStatusOk)" if "checkStatusUnknown \<in> set ?okw"
    using that by auto
  have nal: "\<not> (\<forall>s \<in> set ?alw. s = checkStatusAlarm)" if "checkStatusUnknown \<in> set ?alw"
    using that by auto
  have whole_ok: "?okw = hist" if "alarmPeriods \<le> okPeriods"
    using that assms(3) by (simp add: max_go_def split: if_splits)
  have whole_al: "?alw = hist" if "okPeriods \<le> alarmPeriods"
    using that assms(3) by (simp add: max_go_def split: if_splits)
  show ?thesis
  proof (intro conjI impI)
    assume u: "checkStatusUnknown \<in> set hist"
    show "getNewStatus hist okPeriods alarmPeriods =
            Inr (if okPeriods < alarmPeriods \<and> (\<forall>s \<in> set ?okw. s = checkStatusOk)
                 then checkStatusOk
                 else if alarmPeriods < okPeriods \<and> (\<forall>s \<in> set ?alw. s = checkStatusAlarm)
                 then checkStatusAlarm else checkStatusUnknown)"
    proof (cases "okPeriods < alarmPeriods")
      case True
      then have "?alw = hist" by (intro whole_al) simp
      with u have "\<not> (\<forall>s \<in> set ?alw. s = checkStatusAlarm)" by (intro nal) simp
      with True show ?thesis unfolding spec by auto
    next
      case False
      then have "?okw = hist" by (intro whole_ok) simp
      with u have n1: "\<not> (\<forall>s \<in> set ?okw. s = checkStatusOk)" by (intro nok) simp
      show ?thesis
      proof (cases "alarmPeriods < okPeriods")
        case True
        with False n1 show ?thesis unfolding spec by auto
      next
        case eq: False
        with False have "?alw = hist" by (intro whole_al) simp
        with u have "\<not> (\<forall>s \<in> set ?alw. s = checkStatusAlarm)" by (intro nal) simp
        with False eq n1 show ?thesis unfolding spec by auto
      qed
    qed
  next
    assume "checkStatusUnknown \<in> set ?okw"
    from nok [OF this] show "getNewStatus hist okPeriods alarmPeriods =
            Inr (if \<forall>s \<in> set ?alw. s = checkStatusAlarm
                 then checkStatusAlarm else checkStatusUnknown)"
      unfolding spec by (simp only: if_False)
  next
    assume "checkStatusUnknown \<in> set ?alw"
    from nal [OF this] show "getNewStatus hist okPeriods alarmPeriods =
            Inr (if \<forall>s \<in> set ?okw. s = checkStatusOk
                 then checkStatusOk else checkStatusUnknown)"
      unfolding spec by (simp only: if_False)
  qed
qed

text \<open>
  The buffers of a target with \<open>N_ok = 3\<close>, \<open>N_alarm = 2\<close> after one and after two
  answers 200 give \<open>Unknown\<close>; the buffer of a target with \<open>N_ok = 1\<close>, \<open>N_alarm = 2\<close> after
  one answer 200 gives \<open>Ok\<close>.
\<close>

theorem initial_fill_amended_witness:
  "getNewStatus [checkStatusUnknown, checkStatusUnknown, checkStatusOk] 3 2 = Inr checkStatusUnknown
   \<and> getNewStatus [checkStatusUnknown, checkStatusOk, checkStatusOk] 3 2 = Inr checkStatusUnknown
   \<and> getNewStatus [checkStatusUnknown, checkStatusOk] 1 2 = Inr checkStatusOk"
proof -
  let ?a = "[checkStatusUnknown, checkStatusUnknown, checkStatusOk]"
  let ?b = "[checkStatusUnknown, checkStatusOk, checkStatusOk]"
  let ?c = "[checkStatusUnknown, checkStatusOk]"
  have p32: "(1::int) \<le> 3" "(1::int) \<le> 2" by simp_all
  have p12: "(1::int) \<le> 1" "(1::int) \<le> 2" by simp_all
  have la: "int (length ?a) = max_go 3 2" and lb: "int (length ?b) = max_go 3 2"
    and lc: "int (length ?c) = max_go 1 2"
    by (simp_all add: max_go_def)
  have ua: "checkStatusUnknown \<in> set (drop (length ?a - nat 2) ?a)" by simp
  have ub: "checkStatusUnknown \<in> set (drop (length ?b - nat 3) ?b)" by simp
  have uc: "checkStatusUnknown \<in> set ?c" by simp
  from initial_fill_amended [OF p32 la] ua
  have a: "getNewStatus ?a 3 2 = Inr checkStatusUnknown" by simp
  from initial_fill_amended [OF p32 lb] ub
  have b: "getNewStatus ?b 3 2 = Inr checkStatusUnknown" by simp
  from initial_fill_amended [OF p12 lc] uc
  have c: "getNewStatus ?c 1 2 = Inr checkStatusOk" by simp
  from a b c show ?thesis by (intro conjI)
qed

section \<open>Properties of the classification of a poll\<close>

lemma intInSlice_iff: "intInSlice a slice \<longleftrightarrow> a \<in> set slice"
  by (induction slice) auto

text \<open>
  C7. \<^verbatim>\<open>checkResponse\<close> returns true exactly when there is no transport error and the
  status code of the response is in the configured list; it returns false on every
  transport error and on every status code outside the list. On what \<^verbatim>\<open>client.Get\<close>
  delivers it therefore never panics and is true exactly for a response with an
  acceptable status code.
\<close>

theorem checkResponse_classifies:
  "(checkResponse resp err config = Inr True \<longleftrightarrow>
      err = None \<and> (\<exists>r. resp = Some r \<and> StatusCode r \<in> set (OKStatuses config)))
   \<and> (err \<noteq> None \<longrightarrow> checkResponse resp err config = Inr False)
   \<and> (err = None \<and> resp = Some r \<and> StatusCode r \<notin> set (OKStatuses config) \<longrightarrow>
        checkResponse resp err config = Inr False)
   \<and> checkResponse (fst (clientGet got)) (snd (clientGet got)) config =
        Inr (\<exists>r. got = GetResponse r \<and> StatusCode r \<in> set (OKStatuses config))"
proof (intro conjI impI)
  show "checkResponse resp err config = Inr True \<longleftrightarrow>
      err = None \<and> (\<exists>r. resp = Some r \<and> StatusCode r \<in> set (OKStatuses config))"
    by (cases resp) (simp_all add: checkResponse_def intInSlice_iff)
next
  assume "err \<noteq> None"
  then show "checkResponse resp err config = Inr False"
    by (simp add: checkResponse_def)
next
  assume "err = None \<and> resp = Some r \<and> StatusCode r \<notin> set (OKStatuses config)"
  then show "checkResponse resp err config = Inr False"
    by (simp add: checkResponse_def intInSlice_iff)
next
  show "checkResponse (fst (clientGet got)) (snd (clientGet got)) config =
        Inr (\<exists>r. got = GetResponse r \<and> StatusCode r \<in> set (OKStatuses config))"
    by (cases got) (simp_all add: checkResponse_def intInSlice_iff)
qed

text \<open>
  A timeout, the status 503 and the status 204 against the acceptable list 200, 204.
\<close>

theorem checkResponse_classifies_witness:
  "Some ''timeout'' \<noteq> (None :: error)
   \<and> checkResponse None (Some ''timeout'')
        \<lparr>Name = ''a'', URL = ''http://a'', OKStatuses = [200, 204], CheckInterval = 1,
         OKPeriods = 1, AlarmPeriods = 1, HTTPTimeout = 1\<rparr> = Inr False
   \<and> StatusCode \<lparr>StatusCode = 503\<rparr> \<notin> set [200, 204]
   \<and> checkResponse (Some \<lparr>StatusCode = 503\<rparr>) None
        \<lparr>Name = ''a'', URL = ''http://a'', OKStatuses = [200, 204], CheckInterval = 1,
         OKPeriods = 1, AlarmPeriods = 1, HTTPTimeout = 1\<rparr> = Inr False
   \<and> checkResponse (Some \<lparr>StatusCode = 204\<rparr>) None
        \<lparr>Name = ''a'', URL = ''http://a'', OKStatuses = [200, 204], CheckInterval = 1,
         OKPeriods = 1, AlarmPeriods = 1, HTTPTimeout = 1\<rparr> = Inr True"
proof -
  let ?c = "\<lparr>Name = ''a'', URL = ''http://a'', OKStatuses = [200, 204], CheckInterval = 1,
         OKPeriods = 1, AlarmPeriods = 1, HTTPTimeout = 1\<rparr>"
  have e: "Some ''timeout'' \<noteq> (None :: error)" by simp
  have n: "StatusCode \<lparr>StatusCode = 503\<rparr> \<notin> set [200, 204]" by simp
  from checkResponse_classifies [of None "Some ''timeout''" ?c] e
  have 1: "checkResponse None (Some ''timeout'') ?c = Inr False" by blast
  from checkResponse_classifies [of "Some \<lparr>StatusCode = 503\<rparr>" None ?c "\<lparr>StatusCode = 503\<rparr>"] n
  have 2: "checkResponse (Some \<lparr>StatusCode = 503\<rparr>) None ?c = Inr False" by simp
  from checkResponse_classifies [of "Some \<lparr>StatusCode = 204\<rparr>" None ?c]
  have 3: "checkResponse (Some \<lparr>StatusCode = 204\<rparr>) None ?c = Inr True" by simp
  from e n 1 2 3 show ?thesis by blast
qed

section \<open>Properties of the validator\<close>

text \<open>
  The rune count is never negative, and it is 0 for the empty string only; a duration
  has 0 seconds only when it is 0.
\<close>

lemma RuneCountInString_nonneg: "0 \<le> RuneCountInString s"
proof (induction s rule: RuneCountInString.induct)
  case (1 s)
  show ?case
  proof (cases "s = []")
    case True
    then show ?thesis by (simp add: RuneCountInString.simps)
  next
    case False
    with 1 have "0 \<le> RuneCountInString (drop (runeWidth (map of_char s)) s)" by simp
    with False show ?thesis by (subst RuneCountInString.simps) simp
  qed
qed

lemma RuneCountInString_eq_0_iff: "RuneCountInString s = 0 \<longleftrightarrow> s = []"
proof (cases "s = []")
  case True
  then show ?thesis by (simp add: RuneCountInString.simps)
next
  case False
  have "0 \<le> RuneCountInString (drop (runeWidth (map of_char s)) s)"
    by (rule RuneCountInString_nonneg)
  with False show ?thesis by (subst RuneCountInString.simps) simp
qed

lemma Seconds_eq: "Seconds d = of_int d / 1000000000"
proof -
  have "d = d sdiv 1000000000 * 1000000000 + d smod 1000000000"
    by (simp add: sdiv_mult_smod_eq)
  then have "(of_int d :: real) = of_int (d sdiv 1000000000) * 1000000000 + of_int (d smod 1000000000)"
    by (metis of_int_add of_int_mult of_int_numeral)
  then show ?thesis by (simp add: Seconds_def field_simps)
qed

lemma Seconds_eq_0_iff: "Seconds d = 0 \<longleftrightarrow> d = 0"
  by (simp add: Seconds_eq)

lemma validateURLConfig_None_iff:
  "validateURLConfig config = None \<longleftrightarrow>
     URL config \<noteq> [] \<and> OKStatuses config \<noteq> [] \<and> CheckInterval config \<noteq> 0 \<and>
     HTTPTimeout config \<noteq> 0 \<and> AlarmPeriods config \<noteq> 0 \<and> OKPeriods config \<noteq> 0"
  by (simp add: validateURLConfig_def RuneCountInString_eq_0_iff Seconds_eq_0_iff)

text \<open>
  A target with \<open>N_ok = -1\<close> and every other field in order passes the check: the code
  compares the periods, the interval and the timeout with 0 and nothing else.
\<close>

theorem validateURLConfig_counterexample:
  "OKPeriods \<lparr>Name = ''a'', URL = ''http://a'', OKStatuses = [200], CheckInterval = 1000000000,
     OKPeriods = - 1, AlarmPeriods = 2, HTTPTimeout = 1000000000\<rparr> < 1
   \<and> validateURLConfig \<lparr>Name = ''a'', URL = ''http://a'', OKStatuses = [200],
       CheckInterval = 1000000000, OKPeriods = - 1, AlarmPeriods = 2,
       HTTPTimeout = 1000000000\<rparr> = None"
  by (simp add: validateURLConfig_None_iff)

text \<open>
  C5, amended. \<^verbatim>\<open>validateURLConfig\<close> returns an error whenever the url is empty, the
  list of status codes is empty, the interval is zero, the timeout is zero, \<open>N_ok\<close> is
  zero or \<open>N_alarm\<close> is zero. For a target whose interval, timeout and periods are not
  negative it returns nil exactly when the url and the list are non-empty, interval and
  timeout are strictly positive and both periods are at least 1.
\<close>

theorem validateURLConfig_amended:
  "(URL config = [] \<or> OKStatuses config = [] \<or> CheckInterval config = 0 \<or>
    HTTPTimeout config = 0 \<or> OKPeriods config = 0 \<or> AlarmPeriods config = 0 \<longrightarrow>
    validateURLConfig config \<noteq> None)
   \<and> (0 \<le> CheckInterval config \<and> 0 \<le> HTTPTimeout config \<and>
       0 \<le> OKPeriods config \<and> 0 \<le> AlarmPeriods config \<longrightarrow>
       (validateURLConfig config = None \<longleftrightarrow>
          URL config \<noteq> [] \<and> OKStatuses config \<noteq> [] \<and> 0 < CheckInterval config \<and>
          0 < HTTPTimeout config \<and> 1 \<le> OKPeriods config \<and> 1 \<le> AlarmPeriods config))"
  by (auto simp add: validateURLConfig_None_iff)

text \<open>A target with the interval 0 and every other field in order is rejected.\<close>

theorem validateURLConfig_amended_witness:
  "(0::int) \<le> 0 \<and> (0::int) \<le> 5000000000 \<and> (0::int) \<le> 3 \<and> (0::int) \<le> 2
   \<and> \<not> (0::int) < 0
   \<and> validateURLConfig \<lparr>Name = ''a'', URL = ''http://a'', OKStatuses = [200],
       CheckInterval = 0, OKPeriods = 3, AlarmPeriods = 2,
       HTTPTimeout = 5000000000\<rparr> \<noteq> None"
  using validateURLConfig_amended [of "\<lparr>Name = ''a'', URL = ''http://a'', OKStatuses = [200],
       CheckInterval = 0, OKPeriods = 3, AlarmPeriods = 2, HTTPTimeout = 5000000000\<rparr>"]
  by simp

text \<open>
  The message of \<^verbatim>\<open>validateURLConfig\<close> is that of the first failing check, in the order
  of the source. The loop over the items stops at the first item with an error and puts
  the item's index into the message.
\<close>

lemma validateURLConfig_messages:
  "validateURLConfig config =
     (if URL config = [] then Some ''empty URL''
      else if OKStatuses config = [] then Some ''empty OKStatuses''
      else if CheckInterval config = 0 then Some ''CheckInterval == 0s''
      else if HTTPTimeout config = 0 then Some ''HTTPTimeout == 0s''
      else if AlarmPeriods config = 0 then Some ''AlarmPeriods == 0''
      else if OKPeriods config = 0 then Some ''OKPeriods == 0''
      else None)"
  by (simp add: validateURLConfig_def RuneCountInString_eq_0_iff Seconds_eq_0_iff)

lemma validateItems_first:
  "i < length items \<Longrightarrow> \<forall>j < i. validateURLConfig (items ! j) = None \<Longrightarrow>
   validateURLConfig (items ! i) = Some msg \<Longrightarrow>
   validateItems idx items = Some (''invalid item '' @ fmt_d (idx + i) @ '': '' @ msg)"
proof (induction items arbitrary: i idx)
  case Nil
  then show ?case by simp
next
  case (Cons conf rest)
  show ?case
  proof (cases i)
    case 0
    with Cons.prems show ?thesis by simp
  next
    case (Suc k)
    with Cons.prems have "validateURLConfig conf = None" by auto
    moreover from Suc Cons.prems have "k < length rest"
      "\<forall>j < k. validateURLConfig (rest ! j) = None" "validateURLConfig (rest ! k) = Some msg"
      by auto
    then have "validateItems (Suc idx) rest =
        Some (''invalid item '' @ fmt_d (Suc idx + k) @ '': '' @ msg)"
      by (rule Cons.IH)
    ultimately show ?thesis using Suc by simp
  qed
qed

lemma validateItems_None_iff:
  "validateItems idx items = None \<longleftrightarrow> (\<forall>u \<in> set items. validateURLConfig u = None)"
  by (induction items arbitrary: idx) (auto split: option.splits)

lemma validateConfig_items:
  assumes "SlackToken config \<noteq> []" and "SlackChannel config \<noteq> []"
    and "BotName config \<noteq> []" and "Items config \<noteq> []"
  shows "validateConfig config = validateItems 0 (Items config)"
  using assms by (simp add: validateConfig_def RuneCountInString_eq_0_iff)

text \<open>
  C6. \<^verbatim>\<open>validateConfig\<close> returns the first violation, tagged with the index of the failing
  target. With valid global fields, valid targets 0 and 1 and a target 2 whose list of
  status codes is empty (its url, checked before the list, being non-empty) the error
  is \<^verbatim>\<open>invalid item 2: empty OKStatuses\<close>; in general, when target \<open>i\<close> is the first one
  that \<^verbatim>\<open>validateURLConfig\<close> rejects, the error names \<open>i\<close> and carries that target's
  message. It returns nil exactly when the three global fields are non-empty, there is
  at least one target and \<^verbatim>\<open>validateURLConfig\<close> accepts every target.
\<close>

theorem validateConfig_first_violation:
  "(SlackToken config \<noteq> [] \<and> SlackChannel config \<noteq> [] \<and> BotName config \<noteq> [] \<and>
      2 < length (Items config) \<and> validateURLConfig (Items config ! 0) = None \<and>
      validateURLConfig (Items config ! 1) = None \<and> URL (Items config ! 2) \<noteq> [] \<and>
      OKStatuses (Items config ! 2) = [] \<longrightarrow>
      validateConfig config = Some ''invalid item 2: empty OKStatuses'')
   \<and> (SlackToken config \<noteq> [] \<and> SlackChannel config \<noteq> [] \<and> BotName config \<noteq> [] \<and>
      i < length (Items config) \<and> (\<forall>j < i. validateURLConfig (Items config ! j) = None) \<and>
      validateURLConfig (Items config ! i) = Some msg \<longrightarrow>
      validateConfig config = Some (''invalid item '' @ fmt_d i @ '': '' @ msg))
   \<and> (validateConfig config = None \<longleftrightarrow>
      SlackToken config \<noteq> [] \<and> SlackChannel config \<noteq> [] \<and> BotName config \<noteq> [] \<and>
      Items config \<noteq> [] \<and> (\<forall>u \<in> set (Items config). validateURLConfig u = None))"
proof (intro conjI impI)
  assume a: "SlackToken config \<noteq> [] \<and> SlackChannel config \<noteq> [] \<and> BotName config \<noteq> [] \<and>
      2 < length (Items config) \<and> validateURLConfig (Items config ! 0) = None \<and>
      validateURLConfig (Items config ! 1) = None \<and> URL (Items config ! 2) \<noteq> [] \<and>
      OKStatuses (Items config ! 2) = []"
  then have ne: "Items config \<noteq> []" by auto
  from a have prev: "\<forall>j < 2. validateURLConfig (Items config ! j) = None"
    by (auto simp: less_Suc_eq numeral_2_eq_2)
  from a have "validateURLConfig (Items config ! 2) = Some ''empty OKStatuses''"
    by (simp add: validateURLConfig_messages)
  with a prev have "validateItems 0 (Items config) =
      Some (''invalid item '' @ fmt_d (0 + 2) @ '': '' @ ''empty OKStatuses'')"
    by (intro validateItems_first) auto
  with a ne show "validateConfig config = Some ''invalid item 2: empty OKStatuses''"
    by (simp add: validateConfig_items fmt_d.simps)
next
  assume a: "SlackToken config \<noteq> [] \<and> SlackChannel config \<noteq> [] \<and> BotName config \<noteq> [] \<and>
      i < length (Items config) \<and> (\<forall>j < i. validateURLConfig (Items config ! j) = None) \<and>
      validateURLConfig (Items config ! i) = Some msg"
  then have ne: "Items config \<noteq> []" by auto
  from a have "validateItems 0 (Items config) =
      Some (''invalid item '' @ fmt_d (0 + i) @ '': '' @ msg)"
    by (intro validateItems_first) auto
  with a ne show "validateConfig config = Some (''invalid item '' @ fmt_d i @ '': '' @ msg)"
    by (simp add: validateConfig_items)
next
  show "validateConfig config = None \<longleftrightarrow>
      SlackToken config \<noteq> [] \<and> SlackChannel config \<noteq> [] \<and> BotName config \<noteq> [] \<and>
      Items config \<noteq> [] \<and> (\<forall>u \<in> set (Items config). validateURLConfig u = None)"
    by (simp add: validateConfig_def RuneCountInString_eq_0_iff validateItems_None_iff)
qed

text \<open>Three targets, the third with an empty list of status codes.\<close>

theorem validateConfig_first_violation_witness:
  "validateConfig
     \<lparr>Items =
        [\<lparr>Name = ''a'', URL = ''http://a'', OKStatuses = [200], CheckInterval = 1000000000,
          OKPeriods = 3, AlarmPeriods = 2, HTTPTimeout = 1000000000\<rparr>,
         \<lparr>Name = ''b'', URL = ''http://b'', OKStatuses = [200, 301], CheckInterval = 1000000000,
          OKPeriods = 1, AlarmPeriods = 1, HTTPTimeout = 1000000000\<rparr>,
         \<lparr>Name = ''c'', URL = ''http://c'', OKStatuses = [], CheckInterval = 1000000000,
          OKPeriods = 2, AlarmPeriods = 2, HTTPTimeout = 1000000000\<rparr>],
      SlackToken = ''token'', SlackChannel = ''channel'', BotName = ''bot''\<rparr>
   = Some ''invalid item 2: empty OKStatuses''"
  using validateConfig_first_violation [of
     "\<lparr>Items =
        [\<lparr>Name = ''a'', URL = ''http://a'', OKStatuses = [200], CheckInterval = 1000000000,
          OKPeriods = 3, AlarmPeriods = 2, HTTPTimeout = 1000000000\<rparr>,
         \<lparr>Name = ''b'', URL = ''http://b'', OKStatuses = [200, 301], CheckInterval = 1000000000,
          OKPeriods = 1, AlarmPeriods = 1, HTTPTimeout = 1000000000\<rparr>,
         \<lparr>Name = ''c'', URL = ''http://c'', OKStatuses = [], CheckInterval = 1000000000,
          OKPeriods = 2, AlarmPeriods = 2, HTTPTimeout = 1000000000\<rparr>],
      SlackToken = ''token'', SlackChannel = ''channel'', BotName = ''bot''\<rparr>"]
  by (simp add: validateURLConfig_messages)

section \<open>Properties of the watcher\<close>

text \<open>
  On what \<^verbatim>\<open>client.Get\<close> delivers, \<^verbatim>\<open>checkResponse\<close> does not panic. A slice whose length is
  the larger of two periods that are at least 1 is not empty and at least as long as
  either period.
\<close>

lemma checkResponse_clientGet:
  "checkResponse (fst (clientGet got)) (snd (clientGet got)) config =
     Inr (\<exists>r. got = GetResponse r \<and> StatusCode r \<in> set (OKStatuses config))"
  by (cases got) (simp_all add: checkResponse_def intInSlice_iff)

lemma max_go_bounds:
  assumes "1 \<le> okPeriods" and "1 \<le> alarmPeriods"
    and "int (length hist) = max_go okPeriods alarmPeriods"
  shows "okPeriods \<le> int (length hist)" and "alarmPeriods \<le> int (length hist)"
    and "hist \<noteq> []"
  using assms by (auto simp add: max_go_def split: if_splits)

text \<open>
  One pass from a state whose buffer has the length \<open>max(N_ok, N_alarm)\<close>: the evaluator
  returns some \<open>r\<close> on the shifted buffer, and the pass ends in the state with the new
  confirmed status and one more event, or in the old state with the shifted buffer.
\<close>

lemma watchIteration_result:
  assumes "1 \<le> OKPeriods config" and "1 \<le> AlarmPeriods config"
    and "int (length (history w)) = max_go (OKPeriods config) (AlarmPeriods config)"
  shows "\<exists>r. getNewStatus (tl (history w) @ [currentStatus_of config got])
                (OKPeriods config) (AlarmPeriods config) = Inr r \<and>
             watchIteration config got now w =
               Inr (if r \<noteq> checkStatusUnknown \<and> r \<noteq> lastStatus w
                    then \<lparr>lastStatus = r,
                          history = tl (history w) @ [currentStatus_of config got],
                          events = events w @
                            [\<lparr>name = Name config, url = URL config, time = now,
                              from_status = lastStatus w, to_status = r\<rparr>]\<rparr>
                    else w\<lparr>history := tl (history w) @ [currentStatus_of config got]\<rparr>)"
proof -
  let ?cur = "currentStatus_of config got"
  let ?hist = "tl (history w) @ [?cur]"
  note b = max_go_bounds [OF assms]
  from b(3) have len: "length ?hist = length (history w)" by simp
  from b(3) have push: "push_history (history w) ?cur = Inr ?hist"
    by (cases "history w") (simp_all add: push_history_def drop_Suc)
  from assms(1) b(1) assms(2) b(2) obtain r where
    r: "getNewStatus ?hist (OKPeriods config) (AlarmPeriods config) = Inr r"
    using getNewStatus_spec [of "OKPeriods config" ?hist "AlarmPeriods config"]
    unfolding len by blast
  obtain ok where ok: "checkResponse (fst (clientGet got)) (snd (clientGet got)) config = Inr ok"
    using checkResponse_clientGet by blast
  then have cur: "?cur = (if ok then checkStatusOk else checkStatusAlarm)" by simp
  have "watchIteration config got now w =
      Inr (if r \<noteq> checkStatusUnknown \<and> r \<noteq> lastStatus w
           then \<lparr>lastStatus = r, history = ?hist,
                 events = events w @
                   [\<lparr>name = Name config, url = URL config, time = now,
                     from_status = lastStatus w, to_status = r\<rparr>]\<rparr>
           else w\<lparr>history := ?hist\<rparr>)"
    using ok push r unfolding watchIteration_def cur
    by (cases "clientGet got") (simp add: Let_def)
  with r show ?thesis by blast
qed

text \<open>
  Hence a pass shifts the buffer and keeps its length, and it keeps the link between the
  confirmed status and the events sent: the status is \<open>Unknown\<close> before the first event
  and the target of the latest event afterwards.
\<close>

lemma watchIteration_history:
  assumes "1 \<le> OKPeriods config" and "1 \<le> AlarmPeriods config"
    and "int (length (history w)) = max_go (OKPeriods config) (AlarmPeriods config)"
  shows "\<exists>w'. watchIteration config got now w = Inr w' \<and>
           history w' = tl (history w) @ [currentStatus_of config got] \<and>
           length (history w') = length (history w)"
proof -
  from max_go_bounds(3) [OF assms] have "history w \<noteq> []" .
  then have "length (tl (history w) @ [currentStatus_of config got]) = length (history w)"
    by simp
  with watchIteration_result [OF assms, of got now] show ?thesis
    by (auto split: if_splits)
qed

lemma watchIteration_last:
  assumes "1 \<le> OKPeriods config" and "1 \<le> AlarmPeriods config"
    and "int (length (history w)) = max_go (OKPeriods config) (AlarmPeriods config)"
    and "lastStatus w = (if events w = [] then checkStatusUnknown else to_status (last (events w)))"
    and "watchIteration config got now w = Inr w'"
  shows "lastStatus w' = (if events w' = [] then checkStatusUnknown else to_status (last (events w')))"
  using watchIteration_result [OF assms(1-3), of got now] assms(4,5)
  by (auto split: if_splits)

text \<open>A prefix extended by one pair runs the prefix and then one more pass.\<close>

lemma watchLoop_snoc:
  "watchLoop config (polls @ [(got, now)]) w =
     (case watchLoop config polls w of
        Inl p \<Rightarrow> Inl p
      | Inr w' \<Rightarrow> watchIteration config got now w')"
  by (induction polls arbitrary: w) (auto split: sum.splits)

text \<open>
  By induction on the prefix: the loop does not panic, its buffer is the last
  \<open>max(N_ok, N_alarm)\<close> entries of the initial buffer followed by the recorded outcomes,
  and the link between status and events is kept. \<^verbatim>\<open>watchURL\<close> starts from a buffer of
  \<open>Unknown\<close> entries, no event and the status \<open>Unknown\<close>.
\<close>

lemma watchLoop_invariant:
  assumes "1 \<le> OKPeriods config" and "1 \<le> AlarmPeriods config"
    and "int (length (history w0)) = max_go (OKPeriods config) (AlarmPeriods config)"
    and "lastStatus w0 = (if events w0 = [] then checkStatusUnknown else to_status (last (events w0)))"
  shows "\<exists>w. watchLoop config polls w0 = Inr w \<and>
           history w = drop (length polls)
             (history w0 @ map (\<lambda>p. currentStatus_of config (fst p)) polls) \<and>
           length (history w) = length (history w0) \<and>
           lastStatus w = (if events w = [] then checkStatusUnknown else to_status (last (events w)))"
  using assms(3,4)
proof (induction polls arbitrary: w0)
  case Nil
  then show ?case by simp
next
  case (Cons p polls)
  obtain got now where p: "p = (got, now)" by (cases p)
  from watchIteration_history [OF assms(1,2) Cons.prems(1), of got now]
  obtain w1 where w1: "watchIteration config got now w0 = Inr w1"
    "history w1 = tl (history w0) @ [currentStatus_of config got]"
    "length (history w1) = length (history w0)" by blast
  from w1(3) Cons.prems(1)
  have len1: "int (length (history w1)) = max_go (OKPeriods config) (AlarmPeriods config)"
    by simp
  have last1: "lastStatus w1 = (if events w1 = [] then checkStatusUnknown else to_status (last (events w1)))"
    by (rule watchIteration_last [OF assms(1,2) Cons.prems(1,2) w1(1)])
  from Cons.IH [OF len1 last1] obtain w where w: "watchLoop config polls w1 = Inr w"
    "history w = drop (length polls) (history w1 @ map (\<lambda>p. currentStatus_of config (fst p)) polls)"
    "length (history w) = length (history w1)"
    "lastStatus w = (if events w = [] then checkStatusUnknown else to_status (last (events w)))"
    by blast
  from max_go_bounds(3) [OF assms(1,2) Cons.prems(1)] have ne: "history w0 \<noteq> []" .
  define X where "X = history w0 @ map (\<lambda>p. currentStatus_of config (fst p)) (p # polls)"
  from ne have "history w1 @ map (\<lambda>p. currentStatus_of config (fst p)) polls = drop 1 X"
    unfolding X_def using w1(2) p by (cases "history w0") simp_all
  with w(2) have "history w = drop (length polls) (drop 1 X)" by simp
  also have "\<dots> = drop (length (p # polls)) X" by (simp only: drop_drop) simp
  finally have hist: "history w = drop (length (p # polls))
      (history w0 @ map (\<lambda>p. currentStatus_of config (fst p)) (p # polls))"
    unfolding X_def .
  from hist w(1,3,4) w1(1,3) p show ?case by simp
qed

lemma watchURL_invariant:
  assumes "1 \<le> OKPeriods config" and "1 \<le> AlarmPeriods config"
  shows "\<exists>w. watchURL config polls = Inr w \<and>
           history w = drop (length polls)
             (replicate (nat (max_go (OKPeriods config) (AlarmPeriods config))) checkStatusUnknown
              @ map (\<lambda>p. currentStatus_of config (fst p)) polls) \<and>
           int (length (history w)) = max_go (OKPeriods config) (AlarmPeriods config) \<and>
           lastStatus w = (if events w = [] then checkStatusUnknown else to_status (last (events w)))"
proof -
  let ?n = "max_go (OKPeriods config) (AlarmPeriods config)"
  let ?w0 = "\<lparr>lastStatus = checkStatusUnknown, history = replicate (nat ?n) checkStatusUnknown,
              events = []\<rparr>"
  from assms have pos: "1 \<le> ?n" by (simp add: max_go_def)
  then have mk: "make_history ?n = Inr (replicate (nat ?n) checkStatusUnknown)"
    by (simp add: make_history_def)
  from pos have len0: "int (length (history ?w0)) = ?n" by simp
  have last0: "lastStatus ?w0 = (if events ?w0 = [] then checkStatusUnknown else to_status (last (events ?w0)))"
    by simp
  from watchLoop_invariant [OF assms len0 last0, of polls] mk len0
  show ?thesis unfolding watchURL_def by auto
qed

text \<open>
  An invariant that every pass re-establishes holds after every prefix. Successive events
  never have the same target status, because a new event's target differs from the
  confirmed status, which is the target of the event before it.
\<close>

lemma watchLoop_preserves:
  assumes "I w0"
    and "\<And>w got now. I w \<Longrightarrow> \<exists>w'. watchIteration config got now w = Inr w' \<and> I w'"
  shows "\<exists>w. watchLoop config polls w0 = Inr w \<and> I w"
  using assms(1)
proof (induction polls arbitrary: w0)
  case Nil
  then show ?case by simp
next
  case (Cons p polls)
  obtain got now where p: "p = (got, now)" by (cases p)
  from assms(2) [OF Cons.prems, of got now] obtain w1
    where w1: "watchIteration config got now w0 = Inr w1" "I w1" by blast
  from Cons.IH [OF w1(2)] w1(1) p show ?case by simp
qed

lemma watchIteration_events_alternate:
  assumes "1 \<le> OKPeriods config" and "1 \<le> AlarmPeriods config"
    and "int (length (history w)) = max_go (OKPeriods config) (AlarmPeriods config)"
    and "lastStatus w = (if events w = [] then checkStatusUnknown else to_status (last (events w)))"
    and "\<forall>i. Suc i < length (events w) \<longrightarrow>
           to_status (events w ! Suc i) \<noteq> to_status (events w ! i)"
    and "watchIteration config got now w = Inr w'"
  shows "\<forall>i. Suc i < length (events w') \<longrightarrow>
           to_status (events w' ! Suc i) \<noteq> to_status (events w' ! i)"
proof -
  from watchIteration_result [OF assms(1-3), of got now] assms(6) obtain r where
    w': "w' = (if r \<noteq> checkStatusUnknown \<and> r \<noteq> lastStatus w
               then \<lparr>lastStatus = r,
                     history = tl (history w) @ [currentStatus_of config got],
                     events = events w @
                       [\<lparr>name = Name config, url = URL config, time = now,
                         from_status = lastStatus w, to_status = r\<rparr>]\<rparr>
               else w\<lparr>history := tl (history w) @ [currentStatus_of config got]\<rparr>)"
    by auto
  show ?thesis
  proof (cases "r \<noteq> checkStatusUnknown \<and> r \<noteq> lastStatus w")
    case False
    with w' assms(5) show ?thesis by simp
  next
    case True
    let ?ev = "\<lparr>name = Name config, url = URL config, time = now,
                from_status = lastStatus w, to_status = r\<rparr>"
    from True w' have ev: "events w' = events w @ [?ev]" by simp
    show ?thesis
    proof (intro allI impI)
      fix i assume i: "Suc i < length (events w')"
      show "to_status (events w' ! Suc i) \<noteq> to_status (events w' ! i)"
      proof (cases "Suc i < length (events w)")
        case True
        with assms(5) ev show ?thesis by (simp add: nth_append)
      next
        case False
        with i ev have eq: "Suc i = length (events w)" by simp
        then have ne: "events w \<noteq> []" by auto
        from eq have "events w' ! Suc i = ?ev" using ev by (simp add: nth_append)
        moreover from eq have i': "i = length (events w) - 1" "i < length (events w)"
          by linarith+
        from ne have "events w' ! i = last (events w)"
          unfolding ev last_conv_nth [OF ne] nth_append using i' by simp
        moreover from assms(4) ne have "lastStatus w = to_status (last (events w))" by simp
        ultimately show ?thesis using True by simp
      qed
    qed
  qed
qed

lemma watchURL_events_alternate:
  assumes "1 \<le> OKPeriods config" and "1 \<le> AlarmPeriods config"
  shows "\<exists>w. watchURL config polls = Inr w \<and>
           (\<forall>i. Suc i < length (events w) \<longrightarrow>
              to_status (events w ! Suc i) \<noteq> to_status (events w ! i))"
proof -
  let ?n = "max_go (OKPeriods config) (AlarmPeriods config)"
  let ?w0 = "\<lparr>lastStatus = checkStatusUnknown, history = replicate (nat ?n) checkStatusUnknown,
              events = []\<rparr>"
  let ?I = "\<lambda>w. int (length (history w)) = ?n \<and>
      lastStatus w = (if events w = [] then checkStatusUnknown else to_status (last (events w))) \<and>
      (\<forall>i. Suc i < length (events w) \<longrightarrow>
              to_status (events w ! Suc i) \<noteq> to_status (events w ! i))"
  from assms have pos: "1 \<le> ?n" by (simp add: max_go_def)
  then have mk: "make_history ?n = Inr (replicate (nat ?n) checkStatusUnknown)"
    by (simp add: make_history_def)
  from pos have I0: "?I ?w0" by simp
  have step: "\<exists>w'. watchIteration config got now w = Inr w' \<and> ?I w'" if "?I w" for w got now
  proof -
    from that have len: "int (length (history w)) = ?n"
      and k: "lastStatus w = (if events w = [] then checkStatusUnknown else to_status (last (events w)))"
      and q: "\<forall>i. Suc i < length (events w) \<longrightarrow>
              to_status (events w ! Suc i) \<noteq> to_status (events w ! i)"
      by blast+
    from watchIteration_history [OF assms len, of got now] obtain w'
      where w': "watchIteration config got now w = Inr w'"
        "length (history w') = length (history w)" by blast
    from w'(2) len have "int (length (history w')) = ?n" by simp
    moreover note watchIteration_last [OF assms len k w'(1)]
      watchIteration_events_alternate [OF assms len k q w'(1)]
    ultimately show ?thesis using w'(1) by blast
  qed
  from watchLoop_preserves [of ?I ?w0 config polls, OF I0 step] mk
  show ?thesis unfolding watchURL_def by auto
qed

text \<open>The definitions a concrete run unfolds.\<close>

lemmas run_defs = watchURL_def make_history_def max_go_def watchIteration_def checkResponse_def
  push_history_def getNewStatus_def index_def scanBack.simps Let_def

text \<open>
  C4. In a pass of the watcher loop, from the state \<open>w\<close> reached after any prefix of
  polls, the buffer becomes the old one without its first entry followed by the outcome
  of the poll, and \<open>r\<close> is the evaluator's result on that buffer. An event is appended to
  the channel exactly when \<open>r\<close> is not \<open>Unknown\<close> and differs from the stored status; the
  event carries the name, the url, the time stamp, the stored status and \<open>r\<close>, and the
  stored status becomes \<open>r\<close>; otherwise nothing is sent and the stored status stays. The
  same holds of the pass after it. So a pass sends at most one event; when the next pass
  evaluates to the same confirmed \<open>r\<close> it sends nothing; when nothing has been sent yet,
  a result other than \<open>Unknown\<close> sends exactly one event, from \<open>Unknown\<close>; the stored
  status is \<open>Unknown\<close> before the first event and the target of the latest event
  afterwards; and two successive events on the channel never confirm the same status.
\<close>

theorem watchIteration_event_on_transition:
  assumes "1 \<le> OKPeriods config" and "1 \<le> AlarmPeriods config"
  shows "\<exists>w w' w'' r r'.
      watchURL config polls = Inr w \<and>
      lastStatus w = (if events w = [] then checkStatusUnknown else to_status (last (events w))) \<and>
      getNewStatus (tl (history w) @ [currentStatus_of config got])
        (OKPeriods config) (AlarmPeriods config) = Inr r \<and>
      watchIteration config got now w = Inr w' \<and>
      watchURL config (polls @ [(got, now)]) = Inr w' \<and>
      history w' = tl (history w) @ [currentStatus_of config got] \<and>
      getNewStatus (history w') (OKPeriods config) (AlarmPeriods config) = Inr r \<and>
      events w' = events w @
        (if r \<noteq> checkStatusUnknown \<and> r \<noteq> lastStatus w
         then [\<lparr>name = Name config, url = URL config, time = now,
                from_status = lastStatus w, to_status = r\<rparr>]
         else []) \<and>
      lastStatus w' = (if r \<noteq> checkStatusUnknown \<and> r \<noteq> lastStatus w then r else lastStatus w) \<and>
      length (events w') \<le> length (events w) + 1 \<and>
      getNewStatus (tl (history w') @ [currentStatus_of config got'])
        (OKPeriods config) (AlarmPeriods config) = Inr r' \<and>
      watchIteration config got' now' w' = Inr w'' \<and>
      history w'' = tl (history w') @ [currentStatus_of config got'] \<and>
      getNewStatus (history w'') (OKPeriods config) (AlarmPeriods config) = Inr r' \<and>
      events w'' = events w' @
        (if r' \<noteq> checkStatusUnknown \<and> r' \<noteq> lastStatus w'
         then [\<lparr>name = Name config, url = URL config, time = now',
                from_status = lastStatus w', to_status = r'\<rparr>]
         else []) \<and>
      lastStatus w'' = (if r' \<noteq> checkStatusUnknown \<and> r' \<noteq> lastStatus w' then r' else lastStatus w') \<and>
      (r \<noteq> checkStatusUnknown \<and> r' = r \<longrightarrow> events w'' = events w') \<and>
      (events w = [] \<and> r \<noteq> checkStatusUnknown \<longrightarrow>
         events w' = [\<lparr>name = Name config, url = URL config, time = now,
                       from_status = checkStatusUnknown, to_status = r\<rparr>]) \<and>
      (\<forall>i. Suc i < length (events w') \<longrightarrow>
         to_status (events w' ! Suc i) \<noteq> to_status (events w' ! i))"
proof -
  let ?n = "max_go (OKPeriods config) (AlarmPeriods config)"
  from watchURL_invariant [OF assms, of polls] obtain w where
    w: "watchURL config polls = Inr w" "int (length (history w)) = ?n"
      "lastStatus w = (if events w = [] then checkStatusUnknown else to_status (last (events w)))"
    by blast
  from watchIteration_result [OF assms w(2), of got now] obtain r where
    r: "getNewStatus (tl (history w) @ [currentStatus_of config got])
          (OKPeriods config) (AlarmPeriods config) = Inr r"
    and it: "watchIteration config got now w =
        Inr (if r \<noteq> checkStatusUnknown \<and> r \<noteq> lastStatus w
             then \<lparr>lastStatus = r, history = tl (history w) @ [currentStatus_of config got],
                   events = events w @
                     [\<lparr>name = Name config, url = URL config, time = now,
                       from_status = lastStatus w, to_status = r\<rparr>]\<rparr>
             else w\<lparr>history := tl (history w) @ [currentStatus_of config got]\<rparr>)"
    by blast
  define w' where "w' = (if r \<noteq> checkStatusUnknown \<and> r \<noteq> lastStatus w
             then \<lparr>lastStatus = r, history = tl (history w) @ [currentStatus_of config got],
                   events = events w @
                     [\<lparr>name = Name config, url = URL config, time = now,
                       from_status = lastStatus w, to_status = r\<rparr>]\<rparr>
             else w\<lparr>history := tl (history w) @ [currentStatus_of config got]\<rparr>)"
  from it have it': "watchIteration config got now w = Inr w'" by (simp add: w'_def)
  from w(1) it' have run': "watchURL config (polls @ [(got, now)]) = Inr w'"
    by (auto simp add: watchURL_def watchLoop_snoc split: sum.splits)
  have hist': "history w' = tl (history w) @ [currentStatus_of config got]"
    by (simp add: w'_def)
  with r have r1: "getNewStatus (history w') (OKPeriods config) (AlarmPeriods config) = Inr r"
    by simp
  have ev': "events w' = events w @
        (if r \<noteq> checkStatusUnknown \<and> r \<noteq> lastStatus w
         then [\<lparr>name = Name config, url = URL config, time = now,
                from_status = lastStatus w, to_status = r\<rparr>]
         else [])"
    by (simp add: w'_def)
  have last': "lastStatus w' = (if r \<noteq> checkStatusUnknown \<and> r \<noteq> lastStatus w then r else lastStatus w)"
    by (simp add: w'_def)
  from ev' have most: "length (events w') \<le> length (events w) + 1" by simp
  from watchIteration_history [OF assms w(2), of got now] it'
  have len': "int (length (history w')) = ?n" using w(2) by auto
  from watchIteration_result [OF assms len', of got' now'] obtain r' where
    r': "getNewStatus (tl (history w') @ [currentStatus_of config got'])
          (OKPeriods config) (AlarmPeriods config) = Inr r'"
    and it2: "watchIteration config got' now' w' =
        Inr (if r' \<noteq> checkStatusUnknown \<and> r' \<noteq> lastStatus w'
             then \<lparr>lastStatus = r', history = tl (history w') @ [currentStatus_of config got'],
                   events = events w' @
                     [\<lparr>name = Name config, url = URL config, time = now',
                       from_status = lastStatus w', to_status = r'\<rparr>]\<rparr>
             else w'\<lparr>history := tl (history w') @ [currentStatus_of config got']\<rparr>)"
    by blast
  define w'' where "w'' = (if r' \<noteq> checkStatusUnknown \<and> r' \<noteq> lastStatus w'
             then \<lparr>lastStatus = r', history = tl (history w') @ [currentStatus_of config got'],
                   events = events w' @
                     [\<lparr>name = Name config, url = URL config, time = now',
                       from_status = lastStatus w', to_status = r'\<rparr>]\<rparr>
             else w'\<lparr>history := tl (history w') @ [currentStatus_of config got']\<rparr>)"
  from it2 have it2': "watchIteration config got' now' w' = Inr w''" by (simp add: w''_def)
  have hist'': "history w'' = tl (history w') @ [currentStatus_of config got']"
    by (simp add: w''_def)
  with r' have r2: "getNewStatus (history w'') (OKPeriods config) (AlarmPeriods config) = Inr r'"
    by simp
  have ev'': "events w'' = events w' @
        (if r' \<noteq> checkStatusUnknown \<and> r' \<noteq> lastStatus w'
         then [\<lparr>name = Name config, url = URL config, time = now',
                from_status = lastStatus w', to_status = r'\<rparr>]
         else [])"
    by (simp add: w''_def)
  have last'': "lastStatus w'' = (if r' \<noteq> checkStatusUnknown \<and> r' \<noteq> lastStatus w' then r' else lastStatus w')"
    by (simp add: w''_def)
  have same: "r \<noteq> checkStatusUnknown \<and> r' = r \<longrightarrow> events w'' = events w'"
    using last' ev'' by auto
  have first: "events w = [] \<and> r \<noteq> checkStatusUnknown \<longrightarrow>
         events w' = [\<lparr>name = Name config, url = URL config, time = now,
                       from_status = checkStatusUnknown, to_status = r\<rparr>]"
    using w(3) ev' by auto
  from watchURL_events_alternate [OF assms, of "polls @ [(got, now)]"] run'
  have alt: "\<forall>i. Suc i < length (events w') \<longrightarrow>
         to_status (events w' ! Suc i) \<noteq> to_status (events w' ! i)"
    by auto
  show ?thesis
    apply (rule exI [of _ w], rule exI [of _ w'], rule exI [of _ w''])
    apply (rule exI [of _ r], rule exI [of _ r'])
    apply (intro conjI)
    apply (rule w(1) w(3) r it' run' hist' r1 ev' last' most r' it2' hist'' r2 ev'' last'' same
      first alt)+
    done
qed

text \<open>
  Scenario A of the specification: \<open>N_ok = 3\<close>, \<open>N_alarm = 2\<close> and four answers with the
  status 200. The third pass fills the window with \<open>Ok\<close> and sends the one event from
  \<open>Unknown\<close> to \<open>Ok\<close>; the fourth confirms \<open>Ok\<close> again and sends nothing. The same target
  then answers 503 three times: the second of these passes sends the event from \<open>Ok\<close> to
  \<open>Alarm\<close>, the third sends nothing.
\<close>

theorem watchIteration_event_on_transition_witness:
  "(\<exists>w w' w''.
     watchURL \<lparr>Name = ''a'', URL = ''http://a'', OKStatuses = [200], CheckInterval = 1000000000,
               OKPeriods = 3, AlarmPeriods = 2, HTTPTimeout = 1000000000\<rparr>
        [(GetResponse \<lparr>StatusCode = 200\<rparr>, 1), (GetResponse \<lparr>StatusCode = 200\<rparr>, 2)] = Inr w \<and>
     events w = [] \<and> lastStatus w = checkStatusUnknown \<and>
     watchIteration \<lparr>Name = ''a'', URL = ''http://a'', OKStatuses = [200], CheckInterval = 1000000000,
               OKPeriods = 3, AlarmPeriods = 2, HTTPTimeout = 1000000000\<rparr>
        (GetResponse \<lparr>StatusCode = 200\<rparr>) 3 w = Inr w' \<and>
     history w' = [checkStatusOk, checkStatusOk, checkStatusOk] \<and>
     events w' = [\<lparr>name = ''a'', url = ''http://a'', time = 3,
                   from_status = checkStatusUnknown, to_status = checkStatusOk\<rparr>] \<and>
     lastStatus w' = checkStatusOk \<and>
     watchIteration \<lparr>Name = ''a'', URL = ''http://a'', OKStatuses = [200], CheckInterval = 1000000000,
               OKPeriods = 3, AlarmPeriods = 2, HTTPTimeout = 1000000000\<rparr>
        (GetResponse \<lparr>StatusCode = 200\<rparr>) 4 w' = Inr w'' \<and>
     history w'' = [checkStatusOk, checkStatusOk, checkStatusOk] \<and>
     events w'' = events w')
   \<and> (\<exists>w w' w''.
     watchURL \<lparr>Name = ''a'', URL = ''http://a'', OKStatuses = [200], CheckInterval = 1000000000,
               OKPeriods = 3, AlarmPeriods = 2, HTTPTimeout = 1000000000\<rparr>
        [(GetResponse \<lparr>StatusCode = 200\<rparr>, 1), (GetResponse \<lparr>StatusCode = 200\<rparr>, 2),
         (GetResponse \<lparr>StatusCode = 200\<rparr>, 3), (GetResponse \<lparr>StatusCode = 503\<rparr>, 4)] = Inr w \<and>
     history w = [checkStatusOk, checkStatusOk, checkStatusAlarm] \<and>
     lastStatus w = checkStatusOk \<and>
     events w = [\<lparr>name = ''a'', url = ''http://a'', time = 3,
                  from_status = checkStatusUnknown, to_status = checkStatusOk\<rparr>] \<and>
     watchIteration \<lparr>Name = ''a'', URL = ''http://a'', OKStatuses = [200], CheckInterval = 1000000000,
               OKPeriods = 3, AlarmPeriods = 2, HTTPTimeout = 1000000000\<rparr>
        (GetResponse \<lparr>StatusCode = 503\<rparr>) 5 w = Inr w' \<and>
     history w' = [checkStatusOk, checkStatusAlarm, checkStatusAlarm] \<and>
     events w' = [\<lparr>name = ''a'', url = ''http://a'', time = 3,
                   from_status = checkStatusUnknown, to_status = checkStatusOk\<rparr>,
                  \<lparr>name = ''a'', url = ''http://a'', time = 5,
                   from_status = checkStatusOk, to_status = checkStatusAlarm\<rparr>] \<and>
     lastStatus w' = checkStatusAlarm \<and>
     watchIteration \<lparr>Name = ''a'', URL = ''http://a'', OKStatuses = [200], CheckInterval = 1000000000,
               OKPeriods = 3, AlarmPeriods = 2, HTTPTimeout = 1000000000\<rparr>
        (GetResponse \<lparr>StatusCode = 503\<rparr>) 6 w' = Inr w'' \<and>
     history w'' = [checkStatusAlarm, checkStatusAlarm, checkStatusAlarm] \<and>
     events w'' = events w')"
proof (rule conjI)
  let ?c = "\<lparr>Name = ''a'', URL = ''http://a'', OKStatuses = [200], CheckInterval = 1000000000,
               OKPeriods = 3, AlarmPeriods = 2, HTTPTimeout = 1000000000\<rparr>"
  let ?g = "GetResponse \<lparr>StatusCode = 200\<rparr>"
  let ?ps = "[(?g, 1::int), (?g, 2)]"
  have v: "1 \<le> OKPeriods ?c" "1 \<le> AlarmPeriods ?c" by simp_all
  from watchIteration_event_on_transition [OF v, of ?ps ?g 3 ?g 4]
  obtain w w' w'' r r' where
    w: "watchURL ?c ?ps = Inr w"
    and w': "watchIteration ?c ?g 3 w = Inr w'"
    and h': "history w' = tl (history w) @ [currentStatus_of ?c ?g]"
    and r: "getNewStatus (history w') (OKPeriods ?c) (AlarmPeriods ?c) = Inr r"
    and last': "lastStatus w' = (if r \<noteq> checkStatusUnknown \<and> r \<noteq> lastStatus w then r else lastStatus w)"
    and w'': "watchIteration ?c ?g 4 w' = Inr w''"
    and h'': "history w'' = tl (history w') @ [currentStatus_of ?c ?g]"
    and r': "getNewStatus (history w'') (OKPeriods ?c) (AlarmPeriods ?c) = Inr r'"
    and same: "r \<noteq> checkStatusUnknown \<and> r' = r \<longrightarrow> events w'' = events w'"
    and first: "events w = [] \<and> r \<noteq> checkStatusUnknown \<longrightarrow>
         events w' = [\<lparr>name = Name ?c, url = URL ?c, time = 3,
                       from_status = checkStatusUnknown, to_status = r\<rparr>]"
    by (elim exE conjE)
  have "watchURL ?c ?ps =
      Inr \<lparr>lastStatus = checkStatusUnknown,
           history = [checkStatusUnknown, checkStatusOk, checkStatusOk], events = []\<rparr>"
    by (simp add: run_defs eval_nat_numeral)
  with w have weq: "w = \<lparr>lastStatus = checkStatusUnknown,
           history = [checkStatusUnknown, checkStatusOk, checkStatusOk], events = []\<rparr>"
    by simp
  from weq have e0: "events w = []" "lastStatus w = checkStatusUnknown" by simp_all
  from h' weq have hw': "history w' = [checkStatusOk, checkStatusOk, checkStatusOk]"
    by (simp add: checkResponse_def)
  with r have req: "r = checkStatusOk" by (simp add: run_defs)
  from h'' hw' have hw'': "history w'' = [checkStatusOk, checkStatusOk, checkStatusOk]"
    by (simp add: checkResponse_def)
  with r' have r'eq: "r' = checkStatusOk" by (simp add: run_defs)
  from first e0 req have ev: "events w' = [\<lparr>name = ''a'', url = ''http://a'', time = 3,
                   from_status = checkStatusUnknown, to_status = checkStatusOk\<rparr>]" by simp
  from same req r'eq have sm: "events w'' = events w'" by simp
  from last' req e0 have ls: "lastStatus w' = checkStatusOk" by simp
  show "\<exists>w w' w''.
     watchURL ?c [(?g, 1), (?g, 2)] = Inr w \<and>
     events w = [] \<and> lastStatus w = checkStatusUnknown \<and>
     watchIteration ?c ?g 3 w = Inr w' \<and>
     history w' = [checkStatusOk, checkStatusOk, checkStatusOk] \<and>
     events w' = [\<lparr>name = ''a'', url = ''http://a'', time = 3,
                   from_status = checkStatusUnknown, to_status = checkStatusOk\<rparr>] \<and>
     lastStatus w' = checkStatusOk \<and>
     watchIteration ?c ?g 4 w' = Inr w'' \<and>
     history w'' = [checkStatusOk, checkStatusOk, checkStatusOk] \<and>
     events w'' = events w'"
    apply (rule exI [of _ w], rule exI [of _ w'], rule exI [of _ w''])
    apply (intro conjI)
    apply (rule w e0 w' hw' ev ls w'' hw'' sm)+
    done
next
  let ?c = "\<lparr>Name = ''a'', URL = ''http://a'', OKStatuses = [200], CheckInterval = 1000000000,
               OKPeriods = 3, AlarmPeriods = 2, HTTPTimeout = 1000000000\<rparr>"
  let ?g = "GetResponse \<lparr>StatusCode = 200\<rparr>"
  let ?b = "GetResponse \<lparr>StatusCode = 503\<rparr>"
  let ?ps = "[(?g, 1::int), (?g, 2), (?g, 3), (?b, 4)]"
  let ?e1 = "\<lparr>name = ''a'', url = ''http://a'', time = 3,
                  from_status = checkStatusUnknown, to_status = checkStatusOk\<rparr>"
  have v: "1 \<le> OKPeriods ?c" "1 \<le> AlarmPeriods ?c" by simp_all
  from watchIteration_event_on_transition [OF v, of ?ps ?b 5 ?b 6]
  obtain w w' w'' r r' where
    w: "watchURL ?c ?ps = Inr w"
    and w': "watchIteration ?c ?b 5 w = Inr w'"
    and h': "history w' = tl (history w) @ [currentStatus_of ?c ?b]"
    and r: "getNewStatus (history w') (OKPeriods ?c) (AlarmPeriods ?c) = Inr r"
    and ev': "events w' = events w @
        (if r \<noteq> checkStatusUnknown \<and> r \<noteq> lastStatus w
         then [\<lparr>name = Name ?c, url = URL ?c, time = 5,
                from_status = lastStatus w, to_status = r\<rparr>]
         else [])"
    and last': "lastStatus w' = (if r \<noteq> checkStatusUnknown \<and> r \<noteq> lastStatus w then r else lastStatus w)"
    and w'': "watchIteration ?c ?b 6 w' = Inr w''"
    and h'': "history w'' = tl (history w') @ [currentStatus_of ?c ?b]"
    and r': "getNewStatus (history w'') (OKPeriods ?c) (AlarmPeriods ?c) = Inr r'"
    and same: "r \<noteq> checkStatusUnknown \<and> r' = r \<longrightarrow> events w'' = events w'"
    by (elim exE conjE)
  have "watchURL ?c ?ps =
      Inr \<lparr>lastStatus = checkStatusOk,
           history = [checkStatusOk, checkStatusOk, checkStatusAlarm], events = [?e1]\<rparr>"
    by (simp add: run_defs eval_nat_numeral)
  with w have weq: "w = \<lparr>lastStatus = checkStatusOk,
           history = [checkStatusOk, checkStatusOk, checkStatusAlarm], events = [?e1]\<rparr>"
    by simp
  from weq have e0: "history w = [checkStatusOk, checkStatusOk, checkStatusAlarm]"
    "lastStatus w = checkStatusOk" "events w = [?e1]" by simp_all
  from h' e0 have hw': "history w' = [checkStatusOk, checkStatusAlarm, checkStatusAlarm]"
    by (simp add: checkResponse_def)
  with r have req: "r = checkStatusAlarm" by (simp add: run_defs)
  from h'' hw' have hw'': "history w'' = [checkStatusAlarm, checkStatusAlarm, checkStatusAlarm]"
    by (simp add: checkResponse_def)
  with r' have r'eq: "r' = checkStatusAlarm" by (simp add: run_defs)
  from ev' e0 req have ev: "events w' = [?e1,
      \<lparr>name = ''a'', url = ''http://a'', time = 5,
        from_status = checkStatusOk, to_status = checkStatusAlarm\<rparr>]" by simp
  from same req r'eq have sm: "events w'' = events w'" by simp
  from last' req e0 have ls: "lastStatus w' = checkStatusAlarm" by simp
  show "\<exists>w w' w''.
     watchURL ?c [(?g, 1), (?g, 2), (?g, 3), (?b, 4)] = Inr w \<and>
     history w = [checkStatusOk, checkStatusOk, checkStatusAlarm] \<and>
     lastStatus w = checkStatusOk \<and>
     events w = [?e1] \<and>
     watchIteration ?c ?b 5 w = Inr w' \<and>
     history w' = [checkStatusOk, checkStatusAlarm, checkStatusAlarm] \<and>
     events w' = [?e1,
                  \<lparr>name = ''a'', url = ''http://a'', time = 5,
                   from_status = checkStatusOk, to_status = checkStatusAlarm\<rparr>] \<and>
     lastStatus w' = checkStatusAlarm \<and>
     watchIteration ?c ?b 6 w' = Inr w'' \<and>
     history w'' = [checkStatusAlarm, checkStatusAlarm, checkStatusAlarm] \<and>
     events w'' = events w'"
    apply (rule exI [of _ w], rule exI [of _ w'], rule exI [of _ w''])
    apply (intro conjI)
    apply (rule w e0 w' hw' ev ls w'' hw'' sm)+
    done
qed

text \<open>
  C8. Every pass of the watcher loop replaces the buffer by the old buffer without its
  first entry, followed by the newest outcome; before and after every pass its length
  is \<open>max(N_ok, N_alarm)\<close>.
\<close>

theorem history_sliding_window:
  assumes "1 \<le> OKPeriods config" and "1 \<le> AlarmPeriods config"
  shows "\<exists>w w'.
      watchURL config polls = Inr w \<and>
      watchIteration config got now w = Inr w' \<and>
      watchURL config (polls @ [(got, now)]) = Inr w' \<and>
      history w' = tl (history w) @ [currentStatus_of config got] \<and>
      int (length (history w)) = max_go (OKPeriods config) (AlarmPeriods config) \<and>
      int (length (history w')) = max_go (OKPeriods config) (AlarmPeriods config)"
proof -
  from watchURL_invariant [OF assms, of polls] obtain w where
    w: "watchURL config polls = Inr w"
      "int (length (history w)) = max_go (OKPeriods config) (AlarmPeriods config)"
    by blast
  from watchIteration_history [OF assms w(2), of got now] obtain w' where
    w': "watchIteration config got now w = Inr w'"
      "history w' = tl (history w) @ [currentStatus_of config got]"
      "length (history w') = length (history w)"
    by blast
  from w(1) w'(1) have "watchURL config (polls @ [(got, now)]) = Inr w'"
    by (auto simp add: watchURL_def watchLoop_snoc split: sum.splits)
  with w w' show ?thesis by auto
qed

text \<open>
  With \<open>N_ok = 2\<close> and \<open>N_alarm = 3\<close>, after one answer 200 the buffer is
  \<open>[Unknown, Unknown, Ok]\<close>; a failed request turns it into \<open>[Unknown, Ok, Alarm]\<close>.
\<close>

theorem history_sliding_window_witness:
  "\<exists>w w'.
     watchURL \<lparr>Name = ''a'', URL = ''http://a'', OKStatuses = [200], CheckInterval = 1000000000,
               OKPeriods = 2, AlarmPeriods = 3, HTTPTimeout = 1000000000\<rparr>
        [(GetResponse \<lparr>StatusCode = 200\<rparr>, 1)] = Inr w \<and>
     history w = [checkStatusUnknown, checkStatusUnknown, checkStatusOk] \<and>
     watchIteration \<lparr>Name = ''a'', URL = ''http://a'', OKStatuses = [200], CheckInterval = 1000000000,
               OKPeriods = 2, AlarmPeriods = 3, HTTPTimeout = 1000000000\<rparr>
        (GetFailed ''timeout'') 2 w = Inr w' \<and>
     history w' = [checkStatusUnknown, checkStatusOk, checkStatusAlarm] \<and>
     int (length (history w')) = 3"
proof -
  let ?c = "\<lparr>Name = ''a'', URL = ''http://a'', OKStatuses = [200], CheckInterval = 1000000000,
               OKPeriods = 2, AlarmPeriods = 3, HTTPTimeout = 1000000000\<rparr>"
  let ?g = "GetResponse \<lparr>StatusCode = 200\<rparr>"
  have v: "1 \<le> OKPeriods ?c" "1 \<le> AlarmPeriods ?c" by simp_all
  from history_sliding_window [OF v, of "[(?g, 1)]" "GetFailed ''timeout''" 2]
  obtain w w' where
    w: "watchURL ?c [(?g, 1)] = Inr w"
    and w': "watchIteration ?c (GetFailed ''timeout'') 2 w = Inr w'"
    and h: "history w' = tl (history w) @ [currentStatus_of ?c (GetFailed ''timeout'')]"
    and l: "int (length (history w')) = max_go (OKPeriods ?c) (AlarmPeriods ?c)"
    by blast
  have "watchURL ?c [(?g, 1)] =
      Inr \<lparr>lastStatus = checkStatusUnknown,
           history = [checkStatusUnknown, checkStatusUnknown, checkStatusOk], events = []\<rparr>"
    by (simp add: run_defs eval_nat_numeral)
  with w have hw: "history w = [checkStatusUnknown, checkStatusUnknown, checkStatusOk]" by auto
  with h have "history w' = [checkStatusUnknown, checkStatusOk, checkStatusAlarm]"
    by (simp add: checkResponse_def)
  moreover from l have "int (length (history w')) = 3" by (simp add: max_go_def)
  ultimately show ?thesis using w w' hw by blast
qed

text \<open>
  C9. With both periods between 1 and the length of the buffer, \<^verbatim>\<open>getNewStatus\<close> returns a
  status: no index it reads is out of range. \<^verbatim>\<open>watchURL\<close> with periods that are at least 1
  keeps the buffer at least as long as either period, and no pass of it panics.
\<close>

theorem getNewStatus_in_bounds:
  assumes "1 \<le> okPeriods" and "okPeriods \<le> int (length hist)"
    and "1 \<le> alarmPeriods" and "alarmPeriods \<le> int (length hist)"
  shows "(\<exists>s. getNewStatus hist okPeriods alarmPeriods = Inr s)
     \<and> (1 \<le> OKPeriods config \<and> 1 \<le> AlarmPeriods config \<longrightarrow>
          (\<exists>w. watchURL config polls = Inr w \<and>
                1 \<le> OKPeriods config \<and> OKPeriods config \<le> int (length (history w)) \<and>
                1 \<le> AlarmPeriods config \<and> AlarmPeriods config \<le> int (length (history w))))"
proof (intro conjI impI)
  from getNewStatus_spec [OF assms]
  show "\<exists>s. getNewStatus hist okPeriods alarmPeriods = Inr s" by blast
next
  assume v: "1 \<le> OKPeriods config \<and> 1 \<le> AlarmPeriods config"
  then have v1: "1 \<le> OKPeriods config" and v2: "1 \<le> AlarmPeriods config" by simp_all
  from watchURL_invariant [OF v1 v2, of polls] obtain w where
    w: "watchURL config polls = Inr w"
      "int (length (history w)) = max_go (OKPeriods config) (AlarmPeriods config)"
    by blast
  from max_go_bounds(1,2) [OF v1 v2 w(2)] w(1) v1 v2
  show "\<exists>w. watchURL config polls = Inr w \<and>
                1 \<le> OKPeriods config \<and> OKPeriods config \<le> int (length (history w)) \<and>
                1 \<le> AlarmPeriods config \<and> AlarmPeriods config \<le> int (length (history w))"
    by blast
qed

theorem getNewStatus_in_bounds_witness:
  "(1::int) \<le> 2 \<and> 2 \<le> int (length [checkStatusOk, checkStatusAlarm])
   \<and> (1::int) \<le> 1 \<and> 1 \<le> int (length [checkStatusOk, checkStatusAlarm])
   \<and> (\<exists>s. getNewStatus [checkStatusOk, checkStatusAlarm] 2 1 = Inr s)
   \<and> (\<exists>w. watchURL \<lparr>Name = ''a'', URL = ''http://a'', OKStatuses = [200],
                CheckInterval = 1000000000, OKPeriods = 2, AlarmPeriods = 1,
                HTTPTimeout = 1000000000\<rparr>
               [(GetResponse \<lparr>StatusCode = 200\<rparr>, 1), (GetFailed ''timeout'', 2)] = Inr w
            \<and> (2::int) \<le> int (length (history w)))"
proof -
  let ?h = "[checkStatusOk, checkStatusAlarm]"
  let ?c = "\<lparr>Name = ''a'', URL = ''http://a'', OKStatuses = [200],
                CheckInterval = 1000000000, OKPeriods = 2, AlarmPeriods = 1,
                HTTPTimeout = 1000000000\<rparr>"
  let ?ps = "[(GetResponse \<lparr>StatusCode = 200\<rparr>, 1), (GetFailed ''timeout'', 2)]"
  have pre: "(1::int) \<le> 2" "2 \<le> int (length ?h)" "(1::int) \<le> 1" "1 \<le> int (length ?h)"
    by simp_all
  have v: "1 \<le> OKPeriods ?c \<and> 1 \<le> AlarmPeriods ?c" by simp
  from getNewStatus_in_bounds [OF pre, of ?c ?ps] v
  have "\<exists>s. getNewStatus ?h 2 1 = Inr s"
    and "\<exists>w. watchURL ?c ?ps = Inr w \<and> OKPeriods ?c \<le> int (length (history w))"
    by blast+
  with pre show ?thesis by simp
qed

text \<open>
  C10. The outcome a pass records is \<open>Ok\<close> or \<open>Alarm\<close>, never \<open>Unknown\<close>. After any prefix of
  polls the buffer is the last \<open>max(N_ok, N_alarm)\<close> entries of the initial fill followed
  by the recorded outcomes, so its newest entry is not \<open>Unknown\<close> once a poll has been
  made, and from \<open>max(N_ok, N_alarm)\<close> polls on it holds no \<open>Unknown\<close> entry.
\<close>

theorem recorded_outcome_never_unknown:
  assumes "1 \<le> OKPeriods config" and "1 \<le> AlarmPeriods config"
  shows "currentStatus_of config got \<noteq> checkStatusUnknown
     \<and> (\<exists>w. watchURL config polls = Inr w \<and>
          history w = drop (length polls)
            (replicate (nat (max_go (OKPeriods config) (AlarmPeriods config))) checkStatusUnknown
             @ map (\<lambda>p. currentStatus_of config (fst p)) polls) \<and>
          (polls \<noteq> [] \<longrightarrow> last (history w) \<noteq> checkStatusUnknown) \<and>
          (nat (max_go (OKPeriods config) (AlarmPeriods config)) \<le> length polls \<longrightarrow>
             checkStatusUnknown \<notin> set (history w)))"
proof -
  let ?n = "nat (max_go (OKPeriods config) (AlarmPeriods config))"
  let ?f = "\<lambda>p. currentStatus_of config (fst p)"
  from watchURL_invariant [OF assms, of polls] obtain w where
    w: "watchURL config polls = Inr w"
      "history w = drop (length polls) (replicate ?n checkStatusUnknown @ map ?f polls)"
    by blast
  have nu: "checkStatusUnknown \<notin> set (map ?f polls)" by auto
  have l: "last (history w) \<noteq> checkStatusUnknown" if "polls \<noteq> []"
  proof -
    from that have "length polls < length (replicate ?n checkStatusUnknown @ map ?f polls)"
      using assms by (simp add: max_go_def)
    then have "last (history w) = last (replicate ?n checkStatusUnknown @ map ?f polls)"
      unfolding w(2) by (rule last_drop)
    also from that have "\<dots> = last (map ?f polls)" by simp
    also from that have "\<dots> = ?f (last polls)" by (simp add: last_map)
    finally show ?thesis by simp
  qed
  have f: "checkStatusUnknown \<notin> set (history w)" if "?n \<le> length polls"
  proof -
    from that have "history w = drop (length polls - ?n) (map ?f polls)"
      unfolding w(2) by simp
    then have "set (history w) \<subseteq> set (map ?f polls)"
      by (simp only: set_drop_subset)
    with nu show ?thesis by blast
  qed
  from w l f show ?thesis by auto
qed

text \<open>
  With \<open>N_ok = 2\<close> and \<open>N_alarm = 1\<close>: after the answers 200, a timeout and 503 the buffer
  of length 2 is \<open>[Alarm, Alarm]\<close>.
\<close>

theorem recorded_outcome_never_unknown_witness:
  "(\<exists>w. watchURL \<lparr>Name = ''a'', URL = ''http://a'', OKStatuses = [200],
                CheckInterval = 1000000000, OKPeriods = 2, AlarmPeriods = 1,
                HTTPTimeout = 1000000000\<rparr>
               [(GetResponse \<lparr>StatusCode = 200\<rparr>, 1), (GetFailed ''timeout'', 2),
                (GetResponse \<lparr>StatusCode = 503\<rparr>, 3)] = Inr w
        \<and> history w = [checkStatusAlarm, checkStatusAlarm]
        \<and> checkStatusUnknown \<notin> set (history w))"
proof -
  let ?c = "\<lparr>Name = ''a'', URL = ''http://a'', OKStatuses = [200],
                CheckInterval = 1000000000, OKPeriods = 2, AlarmPeriods = 1,
                HTTPTimeout = 1000000000\<rparr>"
  let ?ps = "[(GetResponse \<lparr>StatusCode = 200\<rparr>, 1::int), (GetFailed ''timeout'', 2),
                (GetResponse \<lparr>StatusCode = 503\<rparr>, 3)]"
  have v: "1 \<le> OKPeriods ?c" "1 \<le> AlarmPeriods ?c" by simp_all
  have m: "nat (max_go (OKPeriods ?c) (AlarmPeriods ?c)) = 2"
    by (simp add: max_go_def)
  have n: "nat (max_go (OKPeriods ?c) (AlarmPeriods ?c)) \<le> length ?ps"
    unfolding m by simp
  note inst = recorded_outcome_never_unknown [OF v, of "GetFailed ''timeout''" ?ps]
  from inst obtain w where
    w: "watchURL ?c ?ps = Inr w"
    and u: "nat (max_go (OKPeriods ?c) (AlarmPeriods ?c)) \<le> length ?ps \<longrightarrow>
             checkStatusUnknown \<notin> set (history w)"
    by (elim conjE exE)
  have "watchURL ?c ?ps =
      Inr \<lparr>lastStatus = checkStatusAlarm, history = [checkStatusAlarm, checkStatusAlarm],
           events = [\<lparr>name = ''a'', url = ''http://a'', time = 2,
                      from_status = checkStatusUnknown, to_status = checkStatusAlarm\<rparr>]\<rparr>"
    by (simp add: run_defs eval_nat_numeral)
  with w have "history w = [checkStatusAlarm, checkStatusAlarm]" by auto
  moreover from u n have "checkStatusUnknown \<notin> set (history w)" by (rule mp)
  ultimately show ?thesis using w by (intro exI conjI)
qed

end
